theory Spec2Isabelle
  imports Main "HOL-Library.Word" "HOL-Library.Signed_Division"
begin

unbundle bit_operations_syntax

section \<open>Basic types\<close>

text \<open>
  A Go string is read by \<open>strings.ToUpper\<close> and by \<open>for _, char := range secret\<close> rune by
  rune, so a secret is modelled as the list of its runes (code points). Names, accounts,
  passwords and PINs are only compared and concatenated bytewise and are \<open>string\<close>s.
\<close>

type_synonym rune = nat
type_synonym byte = "8 word"
type_synonym u32 = "32 word"
type_synonym int64 = "64 word"

text \<open>
  Every \<open>fmt.Errorf\<close> of the sources is one constructor; a run-time panic of the Go
  runtime is an error value of its own, so that a crash is a visible branch of the model.
\<close>

datatype panic = DivideByZero | IndexOutOfRange | MakesliceLenOutOfRange

datatype error =
    HomeDirError
  | MkdirError
  | ReadError
  | ParseError
  | WriteError
  | InvalidSecret
  | EmptyNameOrAccount
  | NonPositiveLength
  | NoCharacters
  | RandomError
  | NotFound
  | RuntimePanic panic

section \<open>Secret normaliser (mfa.go, cleanSecret)\<close>

text \<open>
  \<open>strings.ToUpper\<close> maps every rune through \<open>unicode.ToUpper\<close>. On ASCII that is
  \<open>if 'a' <= r && r <= 'z' then r - ('a' - 'A')\<close>; above ASCII it consults the Unicode
  case tables of the standard library, which are taken as the parameter \<open>tbl\<close>.
\<close>

definition unicode_ToUpper :: "(rune \<Rightarrow> rune) \<Rightarrow> rune \<Rightarrow> rune" where
  "unicode_ToUpper tbl r =
     (if r < 128 then (if 97 \<le> r \<and> r \<le> 122 then r - 32 else r) else tbl r)"

definition strings_ToUpper :: "(rune \<Rightarrow> rune) \<Rightarrow> rune list \<Rightarrow> rune list" where
  "strings_ToUpper tbl s = map (unicode_ToUpper tbl) s"

text \<open>The test of the loop body: \<open>(char >= 'A' && char <= 'Z') || (char >= '2' && char <= '7')\<close>.\<close>

definition isBase32Char :: "rune \<Rightarrow> bool" where
  "isBase32Char c \<longleftrightarrow> (65 \<le> c \<and> c \<le> 90) \<or> (50 \<le> c \<and> c \<le> 55)"

text \<open>The \<open>range\<close> loop with its \<open>strings.Builder\<close>.\<close>

fun cleanLoop :: "rune list \<Rightarrow> rune list \<Rightarrow> rune list" where
  "cleanLoop [] cleaned = cleaned"
| "cleanLoop (c # rest) cleaned =
     cleanLoop rest (if isBase32Char c then cleaned @ [c] else cleaned)"

text \<open>\<open>'='\<close> is rune 61; the \<open>switch len(result) % 8\<close> has the cases 2, 4, 5 and 7 only.\<close>

definition cleanSecret :: "(rune \<Rightarrow> rune) \<Rightarrow> rune list \<Rightarrow> rune list" where
  "cleanSecret tbl secret =
     (let secret' = strings_ToUpper tbl secret;
          result = cleanLoop secret' [];
          m = length result mod 8
      in if m = 2 then result @ [61, 61, 61, 61, 61, 61]
         else if m = 4 then result @ [61, 61, 61, 61]
         else if m = 5 then result @ [61, 61, 61]
         else if m = 7 then result @ [61]
         else result)"

subsection \<open>The normaliser in the words of the specification\<close>

definition spec_pad_count :: "nat \<Rightarrow> nat" where
  "spec_pad_count m = (if m = 2 then 6 else if m = 4 then 4 else if m = 5 then 3
                       else if m = 7 then 1 else 0)"

definition spec_filtered :: "(rune \<Rightarrow> rune) \<Rightarrow> rune list \<Rightarrow> rune list" where
  "spec_filtered tbl s = filter isBase32Char (map (unicode_ToUpper tbl) s)"

definition spec_normalize :: "(rune \<Rightarrow> rune) \<Rightarrow> rune list \<Rightarrow> rune list" where
  "spec_normalize tbl s =
     spec_filtered tbl s @ replicate (spec_pad_count (length (spec_filtered tbl s) mod 8)) 61"

text \<open>A canonical padded Base32 string: data characters of the alphabet, their number a
  valid remainder modulo 8, followed by the standard number of pads.\<close>

definition canonicalBase32 :: "rune list \<Rightarrow> bool" where
  "canonicalBase32 s \<longleftrightarrow>
     (let d = takeWhile (\<lambda>c. c \<noteq> 61) s
      in list_all isBase32Char d \<and> length d mod 8 \<in> {0, 2, 4, 5, 7}
         \<and> s = d @ replicate (spec_pad_count (length d mod 8)) 61)"

section \<open>Base32 decoding (encoding/base32, StdEncoding.DecodeString)\<close>

text \<open>
  The decoder of the standard library, for the standard alphabet with padding \<open>'='\<close>.
  \<open>decodeMap\<close> gives the 5-bit value of a byte of the alphabet and \<open>0xFF\<close> otherwise.
\<close>

definition decodeMap :: "nat \<Rightarrow> byte" where
  "decodeMap c = (if 65 \<le> c \<and> c \<le> 90 then of_nat (c - 65)
                  else if 50 \<le> c \<and> c \<le> 55 then of_nat (c - 24) else 0xFF)"

text \<open>
  The inner loop \<open>for j := 0; j < 8\<close> reading one quantum: it fails on a missing pad, a
  short or wrong padding, a padding after 1, 3 or 6 characters and a byte outside the
  alphabet; otherwise it returns the values read, whether the input ended, and the rest.
  The test of the padding, \<open>len(src) > k && src[k] != '='\<close> for \<open>k < 8-1-j\<close>, looks at
  the first \<open>7 - j\<close> bytes that are left, as far as there are any.
\<close>

fun readQuantum :: "nat \<Rightarrow> byte list \<Rightarrow> nat list \<Rightarrow> error + (byte list \<times> bool \<times> nat list)" where
  "readQuantum j dbuf [] = (if 8 \<le> j then Inr (dbuf, False, []) else Inl InvalidSecret)"
| "readQuantum j dbuf (c # src) =
     (if 8 \<le> j then Inr (dbuf, False, c # src)
      else if c = 61 \<and> 2 \<le> j \<and> length src < 8 then
        (if length src + j < 7 then Inl InvalidSecret
         else if list_ex (\<lambda>c. c \<noteq> 61) (take (7 - j) src) then Inl InvalidSecret
         else if j = 1 \<or> j = 3 \<or> j = 6 then Inl InvalidSecret
         else Inr (dbuf, True, src))
      else if decodeMap c = 0xFF then Inl InvalidSecret
      else readQuantum (j + 1) (dbuf @ [decodeMap c]) src)"

text \<open>Packing the 5-bit values of a quantum into bytes; \<open>dlen\<close> is the number of values read.\<close>

definition packQuantum :: "byte list \<Rightarrow> byte list" where
  "packQuantum dbuf =
     (let dlen = length dbuf;
          d = (\<lambda>i. if i < dlen then dbuf ! i else 0);
          b0 = push_bit 3 (d 0) OR drop_bit 2 (d 1);
          b1 = push_bit 6 (d 1) OR push_bit 1 (d 2) OR drop_bit 4 (d 3);
          b2 = push_bit 4 (d 3) OR drop_bit 1 (d 4);
          b3 = push_bit 7 (d 4) OR push_bit 2 (d 5) OR drop_bit 3 (d 6);
          b4 = push_bit 5 (d 6) OR d 7
      in if dlen = 8 then [b0, b1, b2, b3, b4]
         else if dlen = 7 then [b0, b1, b2, b3]
         else if dlen = 5 then [b0, b1, b2]
         else if dlen = 4 then [b0, b1]
         else if dlen = 2 then [b0]
         else [])"

lemma readQuantum_shorter:
  "readQuantum j dbuf src = Inr (d, e, rest) \<Longrightarrow> j < 8 \<Longrightarrow> length rest < length src"
proof (induction j dbuf src rule: readQuantum.induct)
  case (1 j dbuf)
  then show ?case by simp
next
  case (2 j dbuf c src)
  show ?case
  proof (cases "j + 1 < 8")
    case True
    with 2 show ?thesis
      by (auto split: if_splits simp del: upt_Suc)
  next
    case False
    with 2 show ?thesis
      by (cases src) (auto split: if_splits simp del: upt_Suc)
  qed
qed

text \<open>The outer loop \<open>for len(src) > 0 && !end\<close>.\<close>

function decodeLoop :: "nat list \<Rightarrow> error + byte list" where
  "decodeLoop src =
     (if src = [] then Inr []
      else case readQuantum 0 [] src of
             Inl e \<Rightarrow> Inl e
           | Inr (dbuf, end, rest) \<Rightarrow>
               if end then Inr (packQuantum dbuf)
               else (case decodeLoop rest of
                       Inl e \<Rightarrow> Inl e
                     | Inr bs \<Rightarrow> Inr (packQuantum dbuf @ bs)))"
  by pat_completeness auto
termination
  by (relation "measure length") (auto dest: readQuantum_shorter)

declare decodeLoop.simps [simp del]

text \<open>\<open>DecodeString\<close> first drops the bytes \<open>'\r'\<close> and \<open>'\n'\<close>.\<close>

definition DecodeString :: "rune list \<Rightarrow> error + byte list" where
  "DecodeString s = decodeLoop (filter (\<lambda>c. c \<noteq> 13 \<and> c \<noteq> 10) s)"


section \<open>SHA-1 and HMAC (crypto/sha1, crypto/hmac)\<close>

text \<open>
  The two primitives of the standard library, as FIPS 180-4 and RFC 2104 define them:
  32-bit words with wrapping addition, big-endian byte order.
\<close>

definition rotl32 :: "nat \<Rightarrow> u32 \<Rightarrow> u32" where
  "rotl32 n x = push_bit n x OR drop_bit (32 - n) x"

fun be_u32 :: "byte \<Rightarrow> byte \<Rightarrow> byte \<Rightarrow> byte \<Rightarrow> u32" where
  "be_u32 b0 b1 b2 b3 =
     push_bit 24 (ucast b0) OR push_bit 16 (ucast b1) OR push_bit 8 (ucast b2) OR ucast b3"

text \<open>\<open>binary.BigEndian.PutUint64\<close>.\<close>

definition putUint64 :: "64 word \<Rightarrow> byte list" where
  "putUint64 v = [ucast (drop_bit 56 v), ucast (drop_bit 48 v), ucast (drop_bit 40 v),
                  ucast (drop_bit 32 v), ucast (drop_bit 24 v), ucast (drop_bit 16 v),
                  ucast (drop_bit 8 v), ucast v]"

definition putUint32 :: "u32 \<Rightarrow> byte list" where
  "putUint32 v = [ucast (drop_bit 24 v), ucast (drop_bit 16 v), ucast (drop_bit 8 v), ucast v]"

definition sha1_pad :: "byte list \<Rightarrow> byte list" where
  "sha1_pad m = m @ [0x80] @ replicate ((119 - length m mod 64) mod 64) 0
                  @ putUint64 (of_nat (8 * length m))"

fun words_of :: "byte list \<Rightarrow> u32 list" where
  "words_of (b0 # b1 # b2 # b3 # bs) = be_u32 b0 b1 b2 b3 # words_of bs"
| "words_of _ = []"

text \<open>The message schedule, kept newest word first while it is extended.\<close>

definition next_w :: "u32 list \<Rightarrow> u32" where
  "next_w r = rotl32 1 (r ! 2 XOR r ! 7 XOR r ! 13 XOR r ! 15)"

fun extend_schedule :: "nat \<Rightarrow> u32 list \<Rightarrow> u32 list" where
  "extend_schedule 0 r = r"
| "extend_schedule (Suc n) r = extend_schedule n (next_w r # r)"

definition schedule :: "u32 list \<Rightarrow> u32 list" where
  "schedule w = rev (extend_schedule 64 (rev w))"

type_synonym sha1_state = "u32 \<times> u32 \<times> u32 \<times> u32 \<times> u32"

definition sha1_f :: "nat \<Rightarrow> u32 \<Rightarrow> u32 \<Rightarrow> u32 \<Rightarrow> u32" where
  "sha1_f i b c d = (if i < 20 then (b AND c) OR (NOT b AND d)
                     else if i < 40 then b XOR c XOR d
                     else if i < 60 then (b AND c) OR (b AND d) OR (c AND d)
                     else b XOR c XOR d)"

definition sha1_k :: "nat \<Rightarrow> u32" where
  "sha1_k i = (if i < 20 then 0x5A827999 else if i < 40 then 0x6ED9EBA1
               else if i < 60 then 0x8F1BBCDC else 0xCA62C1D6)"

fun round1 :: "nat \<Rightarrow> u32 \<Rightarrow> sha1_state \<Rightarrow> sha1_state" where
  "round1 i wi (a, b, c, d, e) =
     (rotl32 5 a + sha1_f i b c d + e + sha1_k i + wi, a, rotl32 30 b, c, d)"

fun rounds :: "nat \<Rightarrow> u32 list \<Rightarrow> sha1_state \<Rightarrow> sha1_state" where
  "rounds i [] s = s"
| "rounds i (wi # ws) s = rounds (i + 1) ws (round1 i wi s)"

fun add_state :: "sha1_state \<Rightarrow> sha1_state \<Rightarrow> sha1_state" where
  "add_state (h0, h1, h2, h3, h4) (a, b, c, d, e) = (h0 + a, h1 + b, h2 + c, h3 + d, h4 + e)"

definition block :: "sha1_state \<Rightarrow> byte list \<Rightarrow> sha1_state" where
  "block h p = add_state h (rounds 0 (schedule (words_of p)) h)"

fun blocks :: "sha1_state \<Rightarrow> byte list \<Rightarrow> sha1_state" where
  "blocks h p = (if length p < 64 then h else blocks (block h (take 64 p)) (drop 64 p))"

declare blocks.simps [simp del]

fun digest :: "sha1_state \<Rightarrow> byte list" where
  "digest (h0, h1, h2, h3, h4) =
     putUint32 h0 @ putUint32 h1 @ putUint32 h2 @ putUint32 h3 @ putUint32 h4"

definition sha1_init :: sha1_state where
  "sha1_init = (0x67452301, 0xEFCDAB89, 0x98BADCFE, 0x10325476, 0xC3D2E1F0)"

definition sha1 :: "byte list \<Rightarrow> byte list" where
  "sha1 m = digest (blocks sha1_init (sha1_pad m))"

text \<open>The identity on words of 32 bits. The evaluation of a digest rewrites it, at a numeral,
  to the numeral below \<open>2^32\<close>, which the wrapping addition does not do by itself.\<close>

definition normal32 :: "u32 \<Rightarrow> u32" where
  "normal32 x = x"

text \<open>\<open>hmac.New(sha1.New, key)\<close>, \<open>Write(msg)\<close>, \<open>Sum(nil)\<close>: block size 64.\<close>

definition hmac_sha1 :: "byte list \<Rightarrow> byte list \<Rightarrow> byte list" where
  "hmac_sha1 key msg =
     (let k = (if 64 < length key then sha1 key else key);
          k0 = k @ replicate (64 - length k) 0;
          ipad = map (\<lambda>b. b XOR 0x36) k0;
          opad = map (\<lambda>b. b XOR 0x5c) k0
      in sha1 (opad @ sha1 (ipad @ msg)))"

section \<open>TOTP engine (mfa.go)\<close>

text \<open>
  Go's \<open>/\<close> and \<open>%\<close> on \<open>int64\<close> truncate towards zero and wrap around; \<open>int\<close> is the
  64-bit \<open>int\<close> of the usual platforms. A zero divisor panics and is tested by the caller.
\<close>

definition int64_quo :: "int64 \<Rightarrow> int64 \<Rightarrow> int64" where
  "int64_quo a b = word_of_int (sint a sdiv sint b)"

definition int64_rem :: "int64 \<Rightarrow> int64 \<Rightarrow> int64" where
  "int64_rem a b = word_of_int (sint a smod sint b)"

text \<open>
  Lines 166 to 177: \<open>offset := int(hash[len(hash)-1] & 0x0f)\<close>, then
  \<open>binary.BigEndian.Uint32(hash[offset:offset+4]) & 0x7fffffff\<close>. An index or a slice
  bound beyond the digest panics (the bound of the slice is taken to be the length of the
  digest, which is the least that its capacity can be).
\<close>

definition dynamicTruncation :: "byte list \<Rightarrow> error + u32" where
  "dynamicTruncation hash =
     (if hash = [] then Inl (RuntimePanic IndexOutOfRange)
      else let offset = unat (last hash AND 0x0f)
           in if length hash < offset + 4 then Inl (RuntimePanic IndexOutOfRange)
              else Inr (be_u32 (hash ! offset) (hash ! (offset + 1)) (hash ! (offset + 2))
                          (hash ! (offset + 3)) AND 0x7fffffff))"

text \<open>
  The earlier \<open>generateTOTP\<close> of the repository reads the offset from \<open>hash[19]\<close>:
  \<open>offset := hash[19] & 0x0f\<close>, \<open>binary.BigEndian.Uint32(hash[offset:offset+4]) & 0x7fffffff\<close>.
\<close>

definition dynamicTruncation19 :: "byte list \<Rightarrow> error + u32" where
  "dynamicTruncation19 hash =
     (if length hash \<le> 19 then Inl (RuntimePanic IndexOutOfRange)
      else let offset = unat (hash ! 19 AND 0x0f)
           in if length hash < offset + 4 then Inl (RuntimePanic IndexOutOfRange)
              else Inr (be_u32 (hash ! offset) (hash ! (offset + 1)) (hash ! (offset + 2))
                          (hash ! (offset + 3)) AND 0x7fffffff))"

text \<open>\<open>fmt.Sprintf("%06d", n)\<close> for an unsigned \<open>n\<close>.\<close>

definition digitChar :: "nat \<Rightarrow> char" where
  "digitChar d = char_of (48 + d)"

fun decimal :: "nat \<Rightarrow> string" where
  "decimal n = (if n < 10 then [digitChar n] else decimal (n div 10) @ [digitChar (n mod 10)])"

declare decimal.simps [simp del]

definition sprintf_06d :: "nat \<Rightarrow> string" where
  "sprintf_06d n = (let ds = decimal n in replicate (6 - length ds) CHR ''0'' @ ds)"

text \<open>
  Lines 151 to 183 of \<open>generateTOTPWithOffset\<close>, which \<open>testTOTP\<close> repeats in lines 240
  to 250: counter bytes, HMAC-SHA1, dynamic truncation, six digits.
\<close>

definition truncatedHash :: "byte list \<Rightarrow> int64 \<Rightarrow> error + u32" where
  "truncatedHash key counter = dynamicTruncation (hmac_sha1 key (putUint64 counter))"

definition computeOTP :: "byte list \<Rightarrow> int64 \<Rightarrow> error + string" where
  "computeOTP key counter =
     (case truncatedHash key counter of
        Inl e \<Rightarrow> Inl e
      | Inr t \<Rightarrow> Inr (sprintf_06d (unat (t mod 1000000))))"

text \<open>Line 139, \<open>counter := now / int64(period)\<close>, and line 142,
  \<open>remaining := period - int(now%int64(period))\<close>, for a period other than zero.\<close>

definition timeCounter :: "int64 \<Rightarrow> int64 \<Rightarrow> int64" where
  "timeCounter now period = int64_quo now period"

definition remainingSeconds :: "int64 \<Rightarrow> int64 \<Rightarrow> int64" where
  "remainingSeconds now period = period - int64_rem now period"

text \<open>
  \<open>unixNow\<close> is what \<open>time.Now().Unix()\<close> returns. The debug output is not modelled.
  The function tests nothing but the result of the Base32 decoding.
\<close>

definition generateTOTPWithOffset ::
  "(rune \<Rightarrow> rune) \<Rightarrow> rune list \<Rightarrow> int64 \<Rightarrow> int64 \<Rightarrow> int64 \<Rightarrow> error + (string \<times> int64)" where
  "generateTOTPWithOffset tbl secret period timeOffset unixNow =
     (case DecodeString (cleanSecret tbl secret) of
        Inl e \<Rightarrow> Inl InvalidSecret
      | Inr key \<Rightarrow>
          (let now = unixNow + timeOffset
           in if period = 0 then Inl (RuntimePanic DivideByZero)
              else let counter = timeCounter now period;
                       remaining = remainingSeconds now period
                   in case computeOTP key counter of
                        Inl e \<Rightarrow> Inl e
                      | Inr otp \<Rightarrow> Inr (otp, remaining)))"

definition generateTOTP ::
  "(rune \<Rightarrow> rune) \<Rightarrow> rune list \<Rightarrow> int64 \<Rightarrow> int64 \<Rightarrow> error + (string \<times> int64)" where
  "generateTOTP tbl secret period unixNow = generateTOTPWithOffset tbl secret period 0 unixNow"

text \<open>\<open>testTOTP\<close>: the key is the ASCII bytes of \<open>"12345678901234567890"\<close>, used as they are.\<close>

definition testSecretBytes :: "byte list" where
  "testSecretBytes = [0x31, 0x32, 0x33, 0x34, 0x35, 0x36, 0x37, 0x38, 0x39, 0x30,
                      0x31, 0x32, 0x33, 0x34, 0x35, 0x36, 0x37, 0x38, 0x39, 0x30]"

definition testTOTP :: "error + string" where
  "testTOTP = (let testPeriod = 30; testTime = 59; testCounter = int64_quo testTime testPeriod
               in computeOTP testSecretBytes testCounter)"


section \<open>Credential stores\<close>

subsection \<open>Files and the environment\<close>

text \<open>
  Strings in JSON (encoding/json). \<open>json.MarshalIndent\<close> writes a string rune by rune as
  \<open>utf8.DecodeRuneInString\<close> reads it, and a byte that starts no valid UTF-8 encoding is
  written as \<open>\ufffd\<close>; \<open>json.Unmarshal\<close> does the same with the bytes of a string that
  it reads. \<open>utf8_size\<close> is the number of bytes of the valid encoding at the head of a
  string, and 0 where the decoder answers \<open>(RuneError, 1)\<close>.
\<close>

definition inRange :: "char \<Rightarrow> nat \<Rightarrow> nat \<Rightarrow> bool" where
  "inRange c lo hi \<longleftrightarrow> lo \<le> of_char c \<and> of_char c \<le> hi"

text \<open>The valid encodings of one rune, by the first byte and the range of the second.\<close>

fun validRune :: "string \<Rightarrow> bool" where
  "validRune [b0] = inRange b0 0x00 0x7F"
| "validRune [b0, b1] = (inRange b0 0xC2 0xDF \<and> inRange b1 0x80 0xBF)"
| "validRune [b0, b1, b2] =
     (inRange b0 0xE0 0xEF \<and>
      inRange b1 (if inRange b0 0xE0 0xE0 then 0xA0 else 0x80)
        (if inRange b0 0xED 0xED then 0x9F else 0xBF) \<and>
      inRange b2 0x80 0xBF)"
| "validRune [b0, b1, b2, b3] =
     (inRange b0 0xF0 0xF4 \<and>
      inRange b1 (if inRange b0 0xF0 0xF0 then 0x90 else 0x80)
        (if inRange b0 0xF4 0xF4 then 0x8F else 0xBF) \<and>
      inRange b2 0x80 0xBF \<and> inRange b3 0x80 0xBF)"
| "validRune _ = False"

definition utf8_size :: "string \<Rightarrow> nat" where
  "utf8_size s =
     (if 1 \<le> length s \<and> validRune (take 1 s) then 1
      else if 2 \<le> length s \<and> validRune (take 2 s) then 2
      else if 3 \<le> length s \<and> validRune (take 3 s) then 3
      else if 4 \<le> length s \<and> validRune (take 4 s) then 4
      else 0)"

text \<open>U+FFFD in UTF-8.\<close>

definition replacementChar :: string where
  "replacementChar = [CHR 0xEF, CHR 0xBF, CHR 0xBD]"

text \<open>What a string is after it was written to JSON and read again.\<close>

function json_string :: "string \<Rightarrow> string" where
  "json_string [] = []"
| "json_string (b # r) =
     (if utf8_size (b # r) = 0 then replacementChar @ json_string r
      else take (utf8_size (b # r)) (b # r) @ json_string (drop (utf8_size (b # r)) (b # r)))"
  by pat_completeness auto
termination
  by (relation "measure length") auto

declare json_string.simps [simp del]

text \<open>
  A backing file is abstracted to what \<open>os.Stat\<close>, \<open>os.ReadFile\<close> and \<open>json.Unmarshal\<close>
  make of it: it is missing, or it cannot be read, or it holds data, and the data are
  zero bytes long, or not the JSON of a collection, or the JSON of the entries given.
  \<open>json.Unmarshal\<close> rejects zero bytes (unexpected end of JSON input).
\<close>

datatype 'a content = ZeroLength | Malformed | Json "'a list"

datatype 'a backing_file = NoFile | Unreadable | Data "'a content"

text \<open>
  \<open>max_alloc\<close> is the longest byte slice that \<open>make\<close> can allocate in this run (on the
  64-bit platforms at most \<open>2^48\<close> bytes); beyond it \<open>make([]byte, length)\<close> ends the
  program (makeslice: len out of range, or out of memory).
\<close>

record env =
  home_ok :: bool
  mkdir_ok :: bool
  write_ok :: bool
  max_alloc :: nat

definition os_IsNotExist :: "'a backing_file \<Rightarrow> bool" where
  "os_IsNotExist f = (case f of NoFile \<Rightarrow> True | _ \<Rightarrow> False)"

definition os_ReadFile :: "'a backing_file \<Rightarrow> error + 'a content" where
  "os_ReadFile f = (case f of Data c \<Rightarrow> Inr c | _ \<Rightarrow> Inl ReadError)"

definition len_data :: "'a content \<Rightarrow> nat option" where
  "len_data c = (case c of ZeroLength \<Rightarrow> Some 0 | _ \<Rightarrow> None)"

text \<open>\<open>strings\<close> maps an entry to the entry with its string fields as JSON returns them.\<close>

definition json_Unmarshal :: "('a \<Rightarrow> 'a) \<Rightarrow> 'a content \<Rightarrow> error + 'a list" where
  "json_Unmarshal strings c =
     (case c of Json v \<Rightarrow> Inr (map strings v) | _ \<Rightarrow> Inl ParseError)"

text \<open>\<open>json.MarshalIndent\<close> does not fail on these structs; its output is the JSON of the
  entries with their strings as it writes them.\<close>

definition json_MarshalIndent :: "('a \<Rightarrow> 'a) \<Rightarrow> 'a list \<Rightarrow> 'a content" where
  "json_MarshalIndent strings v = Json (map strings v)"

text \<open>\<open>os.WriteFile\<close>; a failed write is taken to leave the file as it was.\<close>

definition os_WriteFile ::
  "env \<Rightarrow> 'a content \<Rightarrow> 'a backing_file \<Rightarrow> (error + unit) \<times> 'a backing_file" where
  "os_WriteFile e data f = (if write_ok e then (Inr (), Data data) else (Inl WriteError, f))"

text \<open>The three path functions differ in the directory and file name only.\<close>

definition getConfigPath :: "env \<Rightarrow> error + unit" where
  "getConfigPath e = (if \<not> home_ok e then Inl HomeDirError
                      else if \<not> mkdir_ok e then Inl MkdirError else Inr ())"

definition getMPINConfigPath :: "env \<Rightarrow> error + unit" where
  "getMPINConfigPath e = (if \<not> home_ok e then Inl HomeDirError
                          else if \<not> mkdir_ok e then Inl MkdirError else Inr ())"

definition getPasswordConfigPath :: "env \<Rightarrow> error + unit" where
  "getPasswordConfigPath e = (if \<not> home_ok e then Inl HomeDirError
                              else if \<not> mkdir_ok e then Inl MkdirError else Inr ())"

subsection \<open>Random source (crypto/rand)\<close>

text \<open>
  \<open>rand.Int(rand.Reader, max)\<close> returns an error or a value below \<open>max\<close>. The source
  is a stream of draws, \<open>None\<close> a failed read; a draw is reduced into the range.
\<close>

type_synonym randsrc = "nat \<Rightarrow> nat option"

definition rand_Int :: "randsrc \<Rightarrow> nat \<Rightarrow> nat \<Rightarrow> error + nat" where
  "rand_Int src pos mx = (case src pos of None \<Rightarrow> Inl RandomError | Some v \<Rightarrow> Inr (v mod mx))"

subsection \<open>MFA store (mfa.go)\<close>

record MFAEntry =
  mfa_Account :: string
  mfa_Name :: string
  mfa_Secret :: "rune list"
  mfa_Period :: int64

text \<open>
  The strings of an entry as JSON returns them. The secret is a list of runes: a byte that
  is no valid UTF-8 is the rune U+FFFD before and after, so the runes are unchanged.
\<close>

definition mfaStrings :: "MFAEntry \<Rightarrow> MFAEntry" where
  "mfaStrings x = x\<lparr>mfa_Account := json_string (mfa_Account x),
                     mfa_Name := json_string (mfa_Name x)\<rparr>"

definition loadMFAStorage :: "env \<Rightarrow> MFAEntry backing_file \<Rightarrow> error + MFAEntry list" where
  "loadMFAStorage e f =
     (case getConfigPath e of
        Inl err \<Rightarrow> Inl err
      | Inr _ \<Rightarrow>
          if os_IsNotExist f then Inr []
          else (case os_ReadFile f of
                  Inl err \<Rightarrow> Inl ReadError
                | Inr data \<Rightarrow>
                    if len_data data = Some 0 then Inr []
                    else (case json_Unmarshal mfaStrings data of
                            Inl err \<Rightarrow> Inl ParseError
                          | Inr entries \<Rightarrow> Inr entries)))"

definition saveMFAStorage ::
  "env \<Rightarrow> MFAEntry list \<Rightarrow> MFAEntry backing_file \<Rightarrow> (error + unit) \<times> MFAEntry backing_file" where
  "saveMFAStorage e storage f =
     (case getConfigPath e of
        Inl err \<Rightarrow> (Inl err, f)
      | Inr _ \<Rightarrow> os_WriteFile e (json_MarshalIndent mfaStrings storage) f)"

text \<open>The loop \<open>for i, entry := range storage.Entries\<close> up to its first hit.\<close>

fun mfaIndex :: "string \<Rightarrow> string \<Rightarrow> MFAEntry list \<Rightarrow> nat \<Rightarrow> nat option" where
  "mfaIndex account name [] i = None"
| "mfaIndex account name (entry # rest) i =
     (if mfa_Account entry = account \<and> mfa_Name entry = name then Some i
      else mfaIndex account name rest (i + 1))"

definition SetupMFA ::
  "(rune \<Rightarrow> rune) \<Rightarrow> env \<Rightarrow> int64 \<Rightarrow> string \<Rightarrow> string \<Rightarrow> rune list \<Rightarrow> int64
     \<Rightarrow> MFAEntry backing_file \<Rightarrow> (error + unit) \<times> MFAEntry backing_file" where
  "SetupMFA tbl e unixNow account name secret period f =
     (case generateTOTP tbl secret period unixNow of
        Inl err \<Rightarrow> (Inl err, f)
      | Inr _ \<Rightarrow>
          (case loadMFAStorage e f of
             Inl err \<Rightarrow> (Inl err, f)
           | Inr entries \<Rightarrow>
               (let newEntry = \<lparr>mfa_Account = account, mfa_Name = name,
                                mfa_Secret = secret, mfa_Period = period\<rparr>
                in case mfaIndex account name entries 0 of
                     Some i \<Rightarrow> saveMFAStorage e (entries[i := newEntry]) f
                   | None \<Rightarrow> saveMFAStorage e (entries @ [newEntry]) f)))"

definition ListMFA :: "env \<Rightarrow> MFAEntry backing_file \<Rightarrow> error + MFAEntry list" where
  "ListMFA e f = loadMFAStorage e f"

subsection \<open>PIN store (mpin.go)\<close>

record MPINEntry =
  pin_Name :: string
  pin_Account :: string
  pin_PIN :: string

definition pinStrings :: "MPINEntry \<Rightarrow> MPINEntry" where
  "pinStrings x = \<lparr>pin_Name = json_string (pin_Name x), pin_Account = json_string (pin_Account x),
                    pin_PIN = json_string (pin_PIN x)\<rparr>"

text \<open>\<open>loadMPINConfig\<close> passes whatever it read to \<open>json.Unmarshal\<close>.\<close>

definition loadMPINConfig :: "env \<Rightarrow> MPINEntry backing_file \<Rightarrow> error + MPINEntry list" where
  "loadMPINConfig e f =
     (case getMPINConfigPath e of
        Inl err \<Rightarrow> Inl err
      | Inr _ \<Rightarrow>
          if os_IsNotExist f then Inr []
          else (case os_ReadFile f of
                  Inl err \<Rightarrow> Inl ReadError
                | Inr data \<Rightarrow>
                    (case json_Unmarshal pinStrings data of
                       Inl err \<Rightarrow> Inl ParseError
                     | Inr entries \<Rightarrow> Inr entries)))"

definition saveMPINConfig ::
  "env \<Rightarrow> MPINEntry list \<Rightarrow> MPINEntry backing_file \<Rightarrow> (error + unit) \<times> MPINEntry backing_file" where
  "saveMPINConfig e config f =
     (case getMPINConfigPath e of
        Inl err \<Rightarrow> (Inl err, f)
      | Inr _ \<Rightarrow> os_WriteFile e (json_MarshalIndent pinStrings config) f)"

text \<open>The loop \<open>for i := 0; i < length; i++\<close> of \<open>generateMPIN\<close>, from draw \<open>pos\<close> on;
  before it, \<open>pin := make([]byte, length)\<close>.\<close>

fun pinLoop :: "nat \<Rightarrow> randsrc \<Rightarrow> nat \<Rightarrow> error + string" where
  "pinLoop 0 src pos = Inr []"
| "pinLoop (Suc n) src pos =
     (case rand_Int src pos 10 of
        Inl err \<Rightarrow> Inl RandomError
      | Inr digit \<Rightarrow>
          (case pinLoop n src (pos + 1) of
             Inl err \<Rightarrow> Inl err
           | Inr pin \<Rightarrow> Inr (digitChar digit # pin)))"

definition generateMPIN :: "env \<Rightarrow> int64 \<Rightarrow> randsrc \<Rightarrow> error + string" where
  "generateMPIN e len src =
     (if sint len \<le> 0 then Inl NonPositiveLength
      else if max_alloc e < nat (sint len) then Inl (RuntimePanic MakesliceLenOutOfRange)
      else pinLoop (nat (sint len)) src 0)"

fun pinIndex :: "string \<Rightarrow> string \<Rightarrow> MPINEntry list \<Rightarrow> nat \<Rightarrow> nat option" where
  "pinIndex name account [] i = None"
| "pinIndex name account (entry # rest) i =
     (if pin_Name entry = name \<and> pin_Account entry = account then Some i
      else pinIndex name account rest (i + 1))"

definition AddMPIN ::
  "env \<Rightarrow> randsrc \<Rightarrow> string \<Rightarrow> string \<Rightarrow> int64 \<Rightarrow> MPINEntry backing_file
     \<Rightarrow> (error + unit) \<times> MPINEntry backing_file" where
  "AddMPIN e src name account len f =
     (if name = [] \<or> account = [] then (Inl EmptyNameOrAccount, f)
      else if sint len \<le> 0 then (Inl NonPositiveLength, f)
      else case loadMPINConfig e f of
             Inl err \<Rightarrow> (Inl err, f)
           | Inr entries \<Rightarrow>
               (case pinIndex name account entries 0 of
                  Some i \<Rightarrow>
                    (case generateMPIN e len src of
                       Inl err \<Rightarrow> (Inl err, f)
                     | Inr pin \<Rightarrow>
                         saveMPINConfig e (entries[i := (entries ! i)\<lparr>pin_PIN := pin\<rparr>]) f)
                | None \<Rightarrow>
                    (case generateMPIN e len src of
                       Inl err \<Rightarrow> (Inl err, f)
                     | Inr pin \<Rightarrow>
                         saveMPINConfig e
                           (entries @ [\<lparr>pin_Name = name, pin_Account = account, pin_PIN = pin\<rparr>]) f)))"

subsection \<open>Password store and generator\<close>

record PasswordEntry =
  pw_Name :: string
  pw_Account :: string
  pw_Password :: string
  pw_Length :: int64
  pw_Config :: string

definition pwStrings :: "PasswordEntry \<Rightarrow> PasswordEntry" where
  "pwStrings x = x\<lparr>pw_Name := json_string (pw_Name x), pw_Account := json_string (pw_Account x),
                    pw_Password := json_string (pw_Password x),
                    pw_Config := json_string (pw_Config x)\<rparr>"

definition loadPasswordStorage :: "env \<Rightarrow> PasswordEntry backing_file \<Rightarrow> error + PasswordEntry list" where
  "loadPasswordStorage e f =
     (case getPasswordConfigPath e of
        Inl err \<Rightarrow> Inl err
      | Inr _ \<Rightarrow>
          if os_IsNotExist f then Inr []
          else (case os_ReadFile f of
                  Inl err \<Rightarrow> Inl ReadError
                | Inr data \<Rightarrow>
                    if len_data data = Some 0 then Inr []
                    else (case json_Unmarshal pwStrings data of
                            Inl err \<Rightarrow> Inl ParseError
                          | Inr entries \<Rightarrow> Inr entries)))"

definition savePasswordStorage ::
  "env \<Rightarrow> PasswordEntry list \<Rightarrow> PasswordEntry backing_file
     \<Rightarrow> (error + unit) \<times> PasswordEntry backing_file" where
  "savePasswordStorage e storage f =
     (case getPasswordConfigPath e of
        Inl err \<Rightarrow> (Inl err, f)
      | Inr _ \<Rightarrow> os_WriteFile e (json_MarshalIndent pwStrings storage) f)"

definition lowerChars :: string where "lowerChars = ''abcdefghijklmnopqrstuvwxyz''"
definition upperChars :: string where "upperChars = ''ABCDEFGHIJKLMNOPQRSTUVWXYZ''"
definition digitChars :: string where "digitChars = ''0123456789''"
definition defaultSpecial :: string where "defaultSpecial = ''!@#$%^&*()_+-=[]{}|;:,.<>?''"

text \<open>The four \<open>if\<close> statements of \<open>generatePassword\<close> that build \<open>charset\<close>.\<close>

definition buildCharset :: "bool \<Rightarrow> bool \<Rightarrow> bool \<Rightarrow> string \<Rightarrow> string" where
  "buildCharset useSmallAlpha useLargeAlpha useDigits specialChars =
     (if useSmallAlpha then lowerChars else [])
     @ (if useLargeAlpha then upperChars else [])
     @ (if useDigits then digitChars else [])
     @ (if specialChars \<noteq> [] then specialChars else [])"

text \<open>\<open>if charset == ""\<close>: the fall-back of the generator itself.\<close>

definition effectiveCharset :: "bool \<Rightarrow> bool \<Rightarrow> bool \<Rightarrow> string \<Rightarrow> string" where
  "effectiveCharset useSmallAlpha useLargeAlpha useDigits specialChars =
     (let charset = buildCharset useSmallAlpha useLargeAlpha useDigits specialChars
      in if charset = [] then lowerChars @ upperChars @ digitChars @ defaultSpecial
         else charset)"

fun passwordLoop :: "nat \<Rightarrow> string \<Rightarrow> randsrc \<Rightarrow> nat \<Rightarrow> error + string" where
  "passwordLoop 0 charset src pos = Inr []"
| "passwordLoop (Suc n) charset src pos =
     (case rand_Int src pos (length charset) of
        Inl err \<Rightarrow> Inl RandomError
      | Inr randomIndex \<Rightarrow>
          (case passwordLoop n charset src (pos + 1) of
             Inl err \<Rightarrow> Inl err
           | Inr password \<Rightarrow> Inr (charset ! randomIndex # password)))"

text \<open>The local \<open>configParts\<close> of \<open>generatePassword\<close> is printed and dropped. The
  password is allocated by \<open>make([]byte, length)\<close> after the test of the charset.\<close>

definition generatePassword ::
  "env \<Rightarrow> int64 \<Rightarrow> bool \<Rightarrow> bool \<Rightarrow> bool \<Rightarrow> string \<Rightarrow> randsrc \<Rightarrow> error + string" where
  "generatePassword e len useSmallAlpha useLargeAlpha useDigits specialChars src =
     (if sint len \<le> 0 then Inl NonPositiveLength
      else let charset = effectiveCharset useSmallAlpha useLargeAlpha useDigits specialChars
           in if length charset = 0 then Inl NoCharacters
              else if max_alloc e < nat (sint len) then Inl (RuntimePanic MakesliceLenOutOfRange)
              else passwordLoop (nat (sint len)) charset src 0)"

fun strings_Join :: "string list \<Rightarrow> string \<Rightarrow> string" where
  "strings_Join [] sep = []"
| "strings_Join [x] sep = x"
| "strings_Join (x # y # ys) sep = x @ sep @ strings_Join (y # ys) sep"

text \<open>The config string that \<open>AddPassword\<close> stores.\<close>

definition configString :: "bool \<Rightarrow> bool \<Rightarrow> bool \<Rightarrow> string \<Rightarrow> string" where
  "configString useSmallAlpha useLargeAlpha useDigits specialChars =
     (let configParts =
            (if useSmallAlpha then [''lowercase''] else [])
            @ (if useLargeAlpha then [''uppercase''] else [])
            @ (if useDigits then [''digits''] else [])
            @ (if specialChars \<noteq> [] then [''special('' @ specialChars @ '')''] else []);
          config = strings_Join configParts '', ''
      in if config = [] then ''all (default)'' else config)"

fun passIndex :: "string \<Rightarrow> string \<Rightarrow> PasswordEntry list \<Rightarrow> nat \<Rightarrow> nat option" where
  "passIndex name account [] i = None"
| "passIndex name account (entry # rest) i =
     (if pw_Name entry = name \<and> pw_Account entry = account then Some i
      else passIndex name account rest (i + 1))"

definition AddPassword ::
  "env \<Rightarrow> randsrc \<Rightarrow> string \<Rightarrow> string \<Rightarrow> int64 \<Rightarrow> bool \<Rightarrow> bool \<Rightarrow> bool \<Rightarrow> string
     \<Rightarrow> PasswordEntry backing_file \<Rightarrow> (error + unit) \<times> PasswordEntry backing_file" where
  "AddPassword e src name account len useSmallAlpha useLargeAlpha useDigits specialChars f =
     (if name = [] \<or> account = [] then (Inl EmptyNameOrAccount, f)
      else case generatePassword e len useSmallAlpha useLargeAlpha useDigits specialChars src of
             Inl err \<Rightarrow> (Inl err, f)
           | Inr password \<Rightarrow>
               (let config = configString useSmallAlpha useLargeAlpha useDigits specialChars
                in case loadPasswordStorage e f of
                     Inl err \<Rightarrow> (Inl err, f)
                   | Inr entries \<Rightarrow>
                       (let newEntry = \<lparr>pw_Name = name, pw_Account = account,
                                        pw_Password = password, pw_Length = len,
                                        pw_Config = config\<rparr>
                        in case passIndex name account entries 0 of
                             Some i \<Rightarrow> savePasswordStorage e (entries[i := newEntry]) f
                           | None \<Rightarrow> savePasswordStorage e (entries @ [newEntry]) f)))"

text \<open>
  \<open>handleAddPassword\<close> (main.go) after flag parsing: the sentinel \<open>"default"\<close>, then the
  fall-back when no class flag and no special string was given.
\<close>

definition resolveFlags :: "bool \<Rightarrow> bool \<Rightarrow> bool \<Rightarrow> string \<Rightarrow> bool \<times> bool \<times> bool \<times> string" where
  "resolveFlags smallAlpha largeAlpha digits specialChars =
     (let actualSpecialChars = (if specialChars = ''default'' then defaultSpecial else specialChars)
      in if \<not> smallAlpha \<and> \<not> largeAlpha \<and> \<not> digits \<and> specialChars = []
         then (True, True, True, defaultSpecial)
         else (smallAlpha, largeAlpha, digits, actualSpecialChars))"

definition handleAddPassword ::
  "env \<Rightarrow> randsrc \<Rightarrow> string \<Rightarrow> string \<Rightarrow> int64 \<Rightarrow> bool \<Rightarrow> bool \<Rightarrow> bool \<Rightarrow> string
     \<Rightarrow> PasswordEntry backing_file \<Rightarrow> (error + unit) \<times> PasswordEntry backing_file" where
  "handleAddPassword e src name account len smallAlpha largeAlpha digits specialChars f =
     (if name = [] \<or> account = [] then (Inl EmptyNameOrAccount, f)
      else case resolveFlags smallAlpha largeAlpha digits specialChars of
             (a, b, c, s) \<Rightarrow> AddPassword e src name account len a b c s f)"

subsection \<open>Error kinds of the specification\<close>

definition isValidationError :: "error \<Rightarrow> bool" where
  "isValidationError err = (case err of EmptyNameOrAccount \<Rightarrow> True | NonPositiveLength \<Rightarrow> True | _ \<Rightarrow> False)"

definition isStorageError :: "error \<Rightarrow> bool" where
  "isStorageError err = (case err of ReadError \<Rightarrow> True | ParseError \<Rightarrow> True | WriteError \<Rightarrow> True | _ \<Rightarrow> False)"


subsection \<open>The upsert in the words of the specification\<close>

text \<open>Replace the first entry with the key of the new one where it stands, else append.\<close>

fun spec_upsert :: "('a \<Rightarrow> 'k) \<Rightarrow> 'a \<Rightarrow> 'a list \<Rightarrow> 'a list" where
  "spec_upsert key new [] = [new]"
| "spec_upsert key new (x # xs) =
     (if key x = key new then new # xs else x # spec_upsert key new xs)"

definition mfaKey :: "MFAEntry \<Rightarrow> string \<times> string" where
  "mfaKey x = (mfa_Account x, mfa_Name x)"

definition pinKey :: "MPINEntry \<Rightarrow> string \<times> string" where
  "pinKey x = (pin_Name x, pin_Account x)"

definition pwKey :: "PasswordEntry \<Rightarrow> string \<times> string" where
  "pwKey x = (pw_Name x, pw_Account x)"

text \<open>
  What the specification asks of the collection stored by an upsert: a matching entry is
  replaced at its index, with the size and the order of the keys as before; without a
  match the new entry is appended; unique keys stay unique.
\<close>

definition upserted :: "('a \<Rightarrow> 'k) \<Rightarrow> 'a \<Rightarrow> 'a list \<Rightarrow> 'a list \<Rightarrow> bool" where
  "upserted key new es stored \<longleftrightarrow>
     (if key new \<in> key ` set es
      then (\<exists>i < length es. key (es ! i) = key new \<and> (\<forall>j < i. key (es ! j) \<noteq> key new) \<and>
              stored = es[i := new]) \<and>
           length stored = length es \<and> map key stored = map key es
      else stored = es @ [new]) \<and>
     (distinct (map key es) \<longrightarrow> distinct (map key stored))"

text \<open>
  What the specification asks of a password of \<open>n\<close> characters: position \<open>i\<close> holds the
  character of the alphabet that draw \<open>i\<close> of the random source selects.
\<close>

definition drawnPassword :: "string \<Rightarrow> randsrc \<Rightarrow> nat \<Rightarrow> string" where
  "drawnPassword charset src n = map (\<lambda>i. charset ! (the (src i) mod length charset)) [0..<n]"

subsection \<open>A working environment and a working random source\<close>

definition healthyEnv :: env where
  "healthyEnv = \<lparr>home_ok = True, mkdir_ok = True, write_ok = True,
                 max_alloc = 281474976710656\<rparr>"

definition steadySource :: randsrc where
  "steadySource i = Some (7 * i + 3)"

section \<open>Properties of the secret normaliser and the decoder\<close>

lemma small_byte: "n < 256 \<Longrightarrow> unat (of_nat n :: byte) = n"
  by (simp add: unat_of_nat)

lemma decodeMap_less: "isBase32Char c \<Longrightarrow> unat (decodeMap c) < 32"
proof -
  assume a: "isBase32Char c"
  then obtain n where n: "decodeMap c = of_nat n" "n < 32"
    unfolding isBase32Char_def decodeMap_def
    by (cases "65 \<le> c \<and> c \<le> 90") (auto simp del: of_nat_diff)
  from n(2) have "unat (of_nat n :: byte) = n" by (intro small_byte) simp
  with n show ?thesis by simp
qed

lemma decodeMap_alphabet: "isBase32Char c \<Longrightarrow> decodeMap c \<noteq> 0xFF"
  using decodeMap_less [of c] by auto

lemma isBase32Char_not_pad: "isBase32Char c \<Longrightarrow> c \<noteq> 61"
  by (auto simp: isBase32Char_def)

lemma readQuantum_alphabet:
  "list_all isBase32Char src \<Longrightarrow> j \<le> 8 \<Longrightarrow>
   readQuantum j dbuf src =
     (if 8 - j \<le> length src
      then Inr (dbuf @ map decodeMap (take (8 - j) src), False, drop (8 - j) src)
      else Inl InvalidSecret)"
proof (induction src arbitrary: j dbuf)
  case Nil
  then show ?case by auto
next
  case (Cons c src)
  show ?case
  proof (cases "j = 8")
    case True
    then show ?thesis by simp
  next
    case False
    with Cons.prems have j: "j + 1 \<le> 8" "8 - j = Suc (8 - (j + 1))" by auto
    from Cons.prems have c: "c \<noteq> 61" "decodeMap c \<noteq> 0xFF" and rest: "list_all isBase32Char src"
      by (auto dest: isBase32Char_not_pad decodeMap_alphabet)
    have "readQuantum j dbuf (c # src) = readQuantum (j + 1) (dbuf @ [decodeMap c]) src"
      using False Cons.prems c by simp
    also have "\<dots> = (if 8 - (j + 1) \<le> length src
      then Inr ((dbuf @ [decodeMap c]) @ map decodeMap (take (8 - (j + 1)) src), False, drop (8 - (j + 1)) src)
      else Inl InvalidSecret)"
      using Cons.IH [OF rest j(1)] .
    finally show ?thesis
      using j(2) by (auto simp del: One_nat_def)
  qed
qed

lemma decodeLoop_unpadded:
  "list_all isBase32Char src \<Longrightarrow> length src mod 8 \<noteq> 0 \<Longrightarrow> decodeLoop src = Inl InvalidSecret"
proof (induction src rule: length_induct)
  case (1 src)
  from 1(3) have ne: "src \<noteq> []" by auto
  show ?case
  proof (cases "8 \<le> length src")
    case False
    then show ?thesis
      using ne readQuantum_alphabet [OF 1(2), of 0 "[]"]
      by (simp add: decodeLoop.simps [of src])
  next
    case True
    have rq: "readQuantum 0 [] src = Inr (map decodeMap (take 8 src), False, drop 8 src)"
      using True readQuantum_alphabet [OF 1(2), of 0 "[]"] by simp
    have "list_all isBase32Char (drop 8 src)"
      using 1(2) by (simp add: list_all_iff) (meson in_set_dropD)
    moreover have "length (drop 8 src) mod 8 \<noteq> 0"
      using True 1(3) by (metis length_drop le_mod_geq mod_self mod_mod_trivial le_add_diff_inverse2 mod_add_self2)
    moreover have "length (drop 8 src) < length src" using True by simp
    ultimately have "decodeLoop (drop 8 src) = Inl InvalidSecret"
      using 1(1) by blast
    then show ?thesis
      using ne rq by (simp add: decodeLoop.simps [of src])
  qed
qed

lemma cleanLoop_filter: "cleanLoop s acc = acc @ filter isBase32Char s"
  by (induction s arbitrary: acc) auto

lemma cleanLoop_spec: "cleanLoop (strings_ToUpper tbl s) [] = spec_filtered tbl s"
  by (simp add: cleanLoop_filter strings_ToUpper_def spec_filtered_def)

lemma replicate_pads:
  "replicate 6 x = [x, x, x, x, x, x]" "replicate 4 x = [x, x, x, x]"
  "replicate 3 x = [x, x, x]" "replicate 1 x = [x]"
  by (simp_all add: numeral_eq_Suc)

lemma cleanSecret_spec: "cleanSecret tbl s = spec_normalize tbl s"
  by (simp add: cleanSecret_def cleanLoop_spec spec_normalize_def spec_pad_count_def Let_def
        replicate_pads)

lemma upper_fixed: "isBase32Char c \<Longrightarrow> unicode_ToUpper tbl c = c"
  by (auto simp: isBase32Char_def unicode_ToUpper_def)

lemma upper_pad: "unicode_ToUpper tbl 61 = 61"
  by (simp add: unicode_ToUpper_def)

lemma spec_filtered_alphabet: "list_all isBase32Char (spec_filtered tbl s)"
  by (simp add: spec_filtered_def list_all_iff)

lemma spec_filtered_padded:
  "list_all isBase32Char d \<Longrightarrow> spec_filtered tbl (d @ replicate k 61) = d"
proof -
  assume d: "list_all isBase32Char d"
  have "map (unicode_ToUpper tbl) d = d"
    using d by (induction d) (auto simp: upper_fixed)
  moreover have "filter isBase32Char d = d"
    using d by (induction d) auto
  moreover have "filter isBase32Char (replicate k 61) = []"
    by (simp add: isBase32Char_def)
  ultimately show ?thesis
    by (simp add: spec_filtered_def upper_pad)
qed

lemma no_newlines: "list_all isBase32Char xs \<Longrightarrow> filter (\<lambda>c. c \<noteq> 13 \<and> c \<noteq> 10) xs = xs"
  by (induction xs) (auto simp: isBase32Char_def)

text \<open>
  Claim C2. For every input, \<open>cleanSecret\<close> returns the input mapped to upper case, with
  every character outside A to Z and 2 to 7 removed, followed by the pads that the length
  of the filtered string modulo 8 asks for (2 gives 6, 4 gives 4, 5 gives 3, 7 gives 1, 0
  none). With remainder 1, 3 or 6 nothing is appended, the Base32 decoding fails, and
  \<open>generateTOTPWithOffset\<close> returns the error for an invalid secret instead of crashing.
\<close>
theorem cleanSecret_normalizes:
  "cleanSecret tbl s = spec_normalize tbl s \<and>
   (length (spec_filtered tbl s) mod 8 \<in> {1, 3, 6} \<longrightarrow>
      cleanSecret tbl s = spec_filtered tbl s \<and>
      DecodeString (cleanSecret tbl s) = Inl InvalidSecret \<and>
      generateTOTPWithOffset tbl s period timeOffset unixNow = Inl InvalidSecret)"
proof (intro conjI impI)
  show "cleanSecret tbl s = spec_normalize tbl s"
    by (rule cleanSecret_spec)
next
  assume m: "length (spec_filtered tbl s) mod 8 \<in> {1, 3, 6}"
  then show unpadded: "cleanSecret tbl s = spec_filtered tbl s"
    by (auto simp: cleanSecret_spec spec_normalize_def spec_pad_count_def)
  from m have "length (spec_filtered tbl s) mod 8 \<noteq> 0" by auto
  then have "decodeLoop (spec_filtered tbl s) = Inl InvalidSecret"
    by (rule decodeLoop_unpadded [OF spec_filtered_alphabet])
  then show dec: "DecodeString (cleanSecret tbl s) = Inl InvalidSecret"
    by (simp add: unpadded DecodeString_def no_newlines [OF spec_filtered_alphabet])
  then show "generateTOTPWithOffset tbl s period timeOffset unixNow = Inl InvalidSecret"
    by (simp add: generateTOTPWithOffset_def)
qed

theorem cleanSecret_normalizes_witness:
  "length (spec_filtered id [97, 32, 45, 98, 49, 99]) mod 8 \<in> {1, 3, 6} \<and>
   cleanSecret id [97, 32, 45, 98, 49, 99] = [65, 66, 67] \<and>
   generateTOTPWithOffset id [97, 32, 45, 98, 49, 99] 30 0 59 = Inl InvalidSecret"
proof -
  have f: "spec_filtered id [97, 32, 45, 98, 49, 99] = [65, 66, 67]"
    by code_simp
  then have h: "length (spec_filtered id [97, 32, 45, 98, 49, 99]) mod 8 \<in> {1, 3, 6}"
    by simp
  from h cleanSecret_normalizes [of id "[97, 32, 45, 98, 49, 99]" 30 0 59]
  have "cleanSecret id [97, 32, 45, 98, 49, 99]
          = spec_filtered id [97, 32, 45, 98, 49, 99] \<and>
        generateTOTPWithOffset id [97, 32, 45, 98, 49, 99] 30 0 59 = Inl InvalidSecret"
    by blast
  with h f show ?thesis by simp
qed

text \<open>
  Claim C9. Normalisation is idempotent: a canonical padded Base32 string is returned
  unchanged, and normalising twice is the same as normalising once, for every input.
\<close>
theorem cleanSecret_idempotent:
  "(canonicalBase32 s \<longrightarrow> cleanSecret tbl s = s) \<and>
   cleanSecret tbl (cleanSecret tbl s) = cleanSecret tbl s"
proof (intro conjI impI)
  assume "canonicalBase32 s"
  then obtain d where d: "list_all isBase32Char d"
    and s: "s = d @ replicate (spec_pad_count (length d mod 8)) 61"
    unfolding canonicalBase32_def Let_def by blast
  have "cleanSecret tbl (d @ replicate (spec_pad_count (length d mod 8)) 61)
          = d @ replicate (spec_pad_count (length d mod 8)) 61"
    by (simp add: cleanSecret_spec spec_normalize_def spec_filtered_padded [OF d])
  with s show "cleanSecret tbl s = s" by simp
next
  show "cleanSecret tbl (cleanSecret tbl s) = cleanSecret tbl s"
    by (simp add: cleanSecret_spec spec_normalize_def
          spec_filtered_padded [OF spec_filtered_alphabet])
qed

theorem cleanSecret_idempotent_witness:
  "canonicalBase32 [77, 70, 82, 71, 71, 61, 61, 61] \<and>
   cleanSecret id [77, 70, 82, 71, 71, 61, 61, 61] = [77, 70, 82, 71, 71, 61, 61, 61]"
proof -
  have h: "canonicalBase32 [77, 70, 82, 71, 71, 61, 61, 61]"
    by code_simp
  show ?thesis
    using h cleanSecret_idempotent [of "[77, 70, 82, 71, 71, 61, 61, 61]" id]
    by simp
qed


section \<open>Properties of the time counter\<close>

lemma sint_of_int_small:
  "- (2 ^ 63) \<le> k \<Longrightarrow> k < 2 ^ 63 \<Longrightarrow> sint (word_of_int k :: int64) = k"
  by (simp add: sint_sbintrunc' signed_take_bit_int_eq_self)

lemma sint_bounds64: "- (2 ^ 63) \<le> sint (w :: int64)" "sint (w :: int64) < 2 ^ 63"
  using sint_ge [of w] sint_lt [of w] by simp_all

lemma sint_quo_nonneg:
  assumes "0 < sint period" "0 \<le> sint now"
  shows "sint (int64_quo now period) = sint now div sint period"
proof -
  have eq: "sint now sdiv sint period = sint now div sint period"
    using assms by (simp add: signed_divide_int_def sgn_if)
  have "0 \<le> sint now div sint period"
    using assms by (simp add: pos_imp_zdiv_nonneg_iff)
  moreover have "sint now div sint period \<le> sint now"
    using assms by (cases "sint now = 0") (simp_all add: int_div_le_self)
  ultimately show ?thesis
    using sint_bounds64 [of now] by (simp add: int64_quo_def eq sint_of_int_small)
qed

lemma sint_rem_nonneg:
  assumes "0 < sint period" "0 \<le> sint now"
  shows "sint (int64_rem now period) = sint now mod sint period"
proof -
  have eq: "sint now smod sint period = sint now mod sint period"
    using assms by (simp add: smod_mod_positive)
  have "0 \<le> sint now mod sint period" "sint now mod sint period < sint period"
    using assms by simp_all
  then show ?thesis
    using sint_bounds64 [of period] by (simp add: int64_rem_def eq sint_of_int_small)
qed

lemma sint_remaining:
  assumes "0 < sint period" "0 \<le> sint now"
  shows "sint (remainingSeconds now period) = sint period - sint now mod sint period"
proof -
  have r: "0 \<le> sint now mod sint period" "sint now mod sint period < sint period"
    using assms by simp_all
  have "int64_rem now period = word_of_int (sint now mod sint period)"
    using assms by (simp add: int64_rem_def smod_mod_positive)
  moreover have "period = word_of_int (sint period)" by simp
  ultimately have "remainingSeconds now period = word_of_int (sint period - sint now mod sint period)"
    unfolding remainingSeconds_def by (metis of_int_diff)
  moreover have "sint (word_of_int (sint period - sint now mod sint period) :: int64)
                   = sint period - sint now mod sint period"
    using r sint_bounds64 [of period] by (intro sint_of_int_small) linarith+
  ultimately show ?thesis by (simp only:)
qed

lemma sint_succ:
  assumes "0 \<le> sint (now :: int64)" "sint now + 1 < 2 ^ 63"
  shows "sint (now + 1) = sint now + 1"
proof -
  have "now + 1 = word_of_int (sint now + 1)" by simp
  then have "sint (now + 1) = sint (word_of_int (sint now + 1) :: int64)" by simp
  also have "\<dots> = sint now + 1"
    using assms by (intro sint_of_int_small) simp_all
  finally show ?thesis .
qed

lemma int_div_succ:
  assumes "0 < (p :: int)"
  shows "(t + 1) div p = t div p + (if (t + 1) mod p = 0 then 1 else 0)"
proof (cases "(t + 1) mod p = 0")
  case True
  then obtain q where q: "t + 1 = p * q" by (auto simp: mod_eq_0_iff_dvd)
  then have t: "t = p * (q - 1) + (p - 1)" by (simp add: algebra_simps)
  have "t div p = q - 1"
    by (subst t) (use assms in \<open>simp add: div_mult_self4 div_pos_pos_trivial\<close>)
  moreover have "(t + 1) div p = q" using q assms by simp
  ultimately show ?thesis using True by simp
next
  case False
  have "t = p * (t div p) + t mod p" by simp
  moreover have "t mod p < p" "0 \<le> t mod p" using assms by simp_all
  moreover have "t mod p + 1 \<noteq> p"
  proof
    assume "t mod p + 1 = p"
    then have "(t + 1) mod p = 0"
      by (metis mod_add_left_eq mod_self)
    with False show False by simp
  qed
  ultimately have "t + 1 = p * (t div p) + (t mod p + 1)" "t mod p + 1 < p" "0 \<le> t mod p + 1"
    by simp_all
  then have "(t + 1) div p = t div p"
    by (metis div_mult_self4 div_pos_pos_trivial add.right_neutral assms less_irrefl mult.commute add.commute)
  with False show ?thesis by simp
qed


text \<open>
  Claim C4, for times from the epoch on. For a period \<open>p > 0\<close> and a time \<open>now \<ge> 0\<close> the
  remaining validity \<open>period - now % period\<close> lies between 1 and \<open>p\<close> and equals \<open>p\<close>
  exactly when \<open>now mod p = 0\<close>; the counter is \<open>\<lfloor>now / p\<rfloor>\<close> and goes up by exactly one
  when \<open>now + 1\<close> is a multiple of \<open>p\<close>, and stays as it is otherwise.
\<close>

theorem remaining_within_period:
  assumes "0 < sint period" and "0 \<le> sint now"
  shows "1 \<le> sint (remainingSeconds now period) \<and>
         sint (remainingSeconds now period) \<le> sint period \<and>
         sint (int64_rem now period) = sint now mod sint period \<and>
         (sint (remainingSeconds now period) = sint period) = (sint now mod sint period = 0) \<and>
         sint (timeCounter now period) = sint now div sint period \<and>
         (sint now + 1 < 2 ^ 63 \<longrightarrow>
            sint (timeCounter (now + 1) period) =
              sint (timeCounter now period)
                + (if (sint now + 1) mod sint period = 0 then 1 else 0))"
proof -
  have r: "0 \<le> sint now mod sint period" "sint now mod sint period < sint period"
    using assms by simp_all
  have rem: "sint (remainingSeconds now period) = sint period - sint now mod sint period"
    by (rule sint_remaining [OF assms])
  have cnt: "sint (timeCounter now period) = sint now div sint period"
    unfolding timeCounter_def by (rule sint_quo_nonneg [OF assms])
  have step: "sint (timeCounter (now + 1) period) =
      sint (timeCounter now period) + (if (sint now + 1) mod sint period = 0 then 1 else 0)"
    if "sint now + 1 < 2 ^ 63"
  proof -
    have s: "sint (now + 1) = sint now + 1"
      using assms(2) that by (rule sint_succ)
    then have "0 \<le> sint (now + 1)" using assms(2) by simp
    then have "sint (timeCounter (now + 1) period) = (sint now + 1) div sint period"
      unfolding timeCounter_def using sint_quo_nonneg [OF assms(1), of "now + 1"] s by simp
    then show ?thesis
      using int_div_succ [OF assms(1), of "sint now"] cnt by simp
  qed
  show ?thesis
    using r rem cnt step sint_rem_nonneg [OF assms] by auto
qed

theorem remaining_within_period_witness:
  "0 < sint (30 :: int64) \<and> 0 \<le> sint (59 :: int64) \<and>
   1 \<le> sint (remainingSeconds 59 30) \<and> sint (remainingSeconds 59 30) \<le> sint (30 :: int64) \<and>
   sint (timeCounter 59 30) = 1 \<and> sint (timeCounter (59 + 1) 30) = sint (timeCounter 59 30) + 1"
  using remaining_within_period [of 30 59] by simp

text \<open>
  Before the epoch Go's remainder is negative: with the clock at 59 and an offset of
  \<open>-60\<close> the time is \<open>-1\<close>, the remaining validity for period 30 is 31, and the counter
  is the same at \<open>-1\<close> and at \<open>0\<close>, although a multiple of the period is crossed.
\<close>

theorem remaining_negative_time_counterexample:
  "sint (remainingSeconds (59 + (- 60)) 30) = 31 \<and>
   \<not> sint (remainingSeconds (59 + (- 60)) 30) \<le> sint (30 :: int64) \<and>
   timeCounter (59 + (- 60)) 30 = timeCounter (59 + (- 59)) 30"
  by (simp add: remainingSeconds_def timeCounter_def int64_rem_def int64_quo_def
        signed_modulo_int_def signed_divide_int_def)

section \<open>Properties of the dynamic truncation\<close>

lemma length_putUint32: "length (putUint32 v) = 4"
  by (simp add: putUint32_def)

lemma length_digest: "length (digest s) = 20"
  by (cases s) (simp add: length_putUint32)

lemma length_sha1: "length (sha1 m) = 20"
  by (simp add: sha1_def length_digest)

lemma length_hmac_sha1: "length (hmac_sha1 key msg) = 20"
  by (simp add: hmac_sha1_def Let_def length_sha1)

lemma nibble_le: "unat ((b :: byte) AND 0x0f) \<le> 15"
proof -
  have "b AND 0x0f \<le> 0x0f"
    by (fact word_and_le1)
  then show ?thesis
    by (simp add: word_le_nat_alt)
qed

lemma mask31_less: "unat ((w :: u32) AND 0x7fffffff) < 2 ^ 31"
proof -
  have "w AND 0x7fffffff \<le> 0x7fffffff"
    by (fact word_and_le1)
  then show ?thesis
    by (simp add: word_le_nat_alt)
qed

lemma dynamicTruncation_in_bounds:
  assumes "length hash = 20"
  shows "dynamicTruncation hash =
           Inr (be_u32 (hash ! unat (last hash AND 0x0f)) (hash ! (unat (last hash AND 0x0f) + 1))
                  (hash ! (unat (last hash AND 0x0f) + 2)) (hash ! (unat (last hash AND 0x0f) + 3))
                AND 0x7fffffff)"
proof -
  from assms have ne: "hash \<noteq> []" by auto
  have "\<not> length hash < unat (last hash AND 0x0f) + 4"
    using nibble_le [of "last hash"] assms by simp
  with ne show ?thesis
    by (simp add: dynamicTruncation_def Let_def del: be_u32.simps)
qed

lemma dynamicTruncation19_same:
  assumes "length hash = 20"
  shows "dynamicTruncation19 hash = dynamicTruncation hash"
proof -
  from assms have ne: "hash \<noteq> []" by auto
  then have "last hash = hash ! 19"
    using assms by (simp add: last_conv_nth)
  with assms ne show ?thesis
    by (simp add: dynamicTruncation19_def dynamicTruncation_def del: be_u32.simps)
qed

lemma digitChar_values: "map digitChar [0, 1, 2, 3, 4, 5, 6, 7, 8, 9] = ''0123456789''"
  by (simp add: digitChar_def char_of_eq_iff)

lemma digitChar_digit: "d < 10 \<Longrightarrow> digitChar d \<in> set ''0123456789''"
proof -
  assume "d < 10"
  then have "d \<in> set [0, 1, 2, 3, 4, 5, 6, 7, 8, 9]" by simp presburger
  then have "digitChar d \<in> set (map digitChar [0, 1, 2, 3, 4, 5, 6, 7, 8, 9])"
    unfolding set_map by (rule imageI)
  then show ?thesis by (simp only: digitChar_values)
qed

lemma length_decimal: "0 < k \<Longrightarrow> n < 10 ^ k \<Longrightarrow> length (decimal n) \<le> k"
proof (induction k arbitrary: n)
  case 0
  then show ?case by simp
next
  case (Suc k)
  show ?case
  proof (cases "n < 10")
    case True
    then show ?thesis by (simp add: decimal.simps [of n])
  next
    case False
    with Suc.prems have k: "0 < k" by (cases k) auto
    from Suc.prems have "n div 10 < 10 ^ k"
      by (simp add: less_mult_imp_div_less mult.commute)
    from Suc.IH [OF k this] False show ?thesis
      by (simp add: decimal.simps [of n])
  qed
qed

lemma decimal_digits: "set (decimal n) \<subseteq> set ''0123456789''"
proof (induction n rule: decimal.induct)
  case (1 n)
  show ?case
  proof (cases "n < 10")
    case True
    then show ?thesis
      using digitChar_digit [of n] by (simp add: decimal.simps [of n])
  next
    case False
    have "n mod 10 < 10" by simp
    from digitChar_digit [OF this] 1 [OF False] False show ?thesis
      by (simp add: decimal.simps [of n])
  qed
qed

lemma sprintf_06d_six:
  assumes "n < 1000000"
  shows "length (sprintf_06d n) = 6 \<and> set (sprintf_06d n) \<subseteq> set ''0123456789''"
proof -
  have "length (decimal n) \<le> 6"
    using assms by (intro length_decimal) simp_all
  moreover have "set (decimal n) \<subseteq> set ''0123456789''" by (rule decimal_digits)
  ultimately show ?thesis
    by (auto simp: sprintf_06d_def Let_def)
qed

lemma truncatedHash_ok:
  "\<exists>t. truncatedHash key counter = Inr t \<and> unat t < 2 ^ 31"
  unfolding truncatedHash_def
  by (intro exI conjI, rule dynamicTruncation_in_bounds [OF length_hmac_sha1], rule mask31_less)

lemma computeOTP_ok:
  "\<exists>t. truncatedHash key counter = Inr t \<and> unat t < 2 ^ 31 \<and>
       computeOTP key counter = Inr (sprintf_06d (unat t mod 1000000)) \<and>
       length (sprintf_06d (unat t mod 1000000)) = 6 \<and>
       set (sprintf_06d (unat t mod 1000000)) \<subseteq> set ''0123456789''"
proof -
  obtain t where t: "truncatedHash key counter = Inr t" "unat t < 2 ^ 31"
    using truncatedHash_ok by blast
  have "unat (t mod 1000000) = unat t mod 1000000"
    by (simp add: unat_mod_distrib)
  with t have "computeOTP key counter = Inr (sprintf_06d (unat t mod 1000000))"
    by (simp add: computeOTP_def)
  moreover have "unat t mod 1000000 < 1000000" by simp
  ultimately show ?thesis
    using t sprintf_06d_six [of "unat t mod 1000000"] by blast
qed

lemma computeOTP_total:
  "\<exists>otp. computeOTP key counter = Inr otp \<and> length otp = 6 \<and> set otp \<subseteq> set ''0123456789''"
proof -
  obtain t where "truncatedHash key counter = Inr t"
    using truncatedHash_ok by blast
  then have "computeOTP key counter = Inr (sprintf_06d (unat t mod 1000000))"
    by (simp add: computeOTP_def unat_mod_distrib)
  then show ?thesis
    using sprintf_06d_six [of "unat t mod 1000000"] by simp
qed

lemma generate_after_decode:
  assumes "DecodeString (cleanSecret tbl secret) = Inr key" and "period \<noteq> 0"
  shows "\<exists>otp. computeOTP key (timeCounter (unixNow + timeOffset) period) = Inr otp \<and>
           generateTOTPWithOffset tbl secret period timeOffset unixNow =
             Inr (otp, remainingSeconds (unixNow + timeOffset) period) \<and>
           length otp = 6 \<and> set otp \<subseteq> set ''0123456789''"
proof -
  obtain otp where o: "computeOTP key (timeCounter (unixNow + timeOffset) period) = Inr otp \<and>
      length otp = 6 \<and> set otp \<subseteq> set ''0123456789''"
    using computeOTP_total [of key "timeCounter (unixNow + timeOffset) period"] by blast
  with assms have "generateTOTPWithOffset tbl secret period timeOffset unixNow =
             Inr (otp, remainingSeconds (unixNow + timeOffset) period)"
    by (simp add: generateTOTPWithOffset_def Let_def)
  with o show ?thesis by blast
qed

lemma decode_JBSWY:
  "DecodeString (cleanSecret id [74, 66, 83, 87, 89, 51, 68, 80, 69, 72, 80, 75, 51, 80, 88, 80])
     = Inr [72, 101, 108, 108, 111, 33, 222, 173, 190, 239]"
  by (simp add: cleanSecret_def strings_ToUpper_def unicode_ToUpper_def isBase32Char_def
        DecodeString_def decodeLoop.simps decodeMap_def packQuantum_def)

lemma decode_GEZD:
  "DecodeString (cleanSecret id [71, 69, 90, 68, 71, 78, 66, 86, 71, 89, 51, 84, 81, 79, 74, 81,
       71, 69, 90, 68, 71, 78, 66, 86, 71, 89, 51, 84, 81, 79, 74, 81]) = Inr testSecretBytes"
  by (simp add: cleanSecret_def strings_ToUpper_def unicode_ToUpper_def isBase32Char_def
        DecodeString_def decodeLoop.simps decodeMap_def packQuantum_def testSecretBytes_def)

text \<open>
  Claim C10, for a period other than zero. The HMAC-SHA1 digest has 20 bytes, the offset
  is at most 15, the window of four bytes ends inside the digest, the truncated value is
  below \<open>2^31\<close>, and the formatting receives it reduced modulo 1,000,000 and prints six
  digits; reading the offset from \<open>hash[19]\<close> gives the same value. After a successful Base32 decoding and with a period other than zero,
  \<open>generateTOTPWithOffset\<close> returns a code and does not panic.
\<close>

theorem truncation_in_bounds:
  "length (hmac_sha1 key (putUint64 counter)) = 20 \<and>
   unat (last (hmac_sha1 key (putUint64 counter)) AND 0x0f) \<le> 15 \<and>
   unat (last (hmac_sha1 key (putUint64 counter)) AND 0x0f) + 4
     \<le> length (hmac_sha1 key (putUint64 counter)) \<and>
   (\<exists>t. truncatedHash key counter = Inr t \<and> unat t < 2 ^ 31 \<and>
        computeOTP key counter = Inr (sprintf_06d (unat t mod 1000000)) \<and>
        length (sprintf_06d (unat t mod 1000000)) = 6) \<and>
   dynamicTruncation19 (hmac_sha1 key (putUint64 counter)) = truncatedHash key counter \<and>
   (DecodeString (cleanSecret tbl secret) = Inr key \<and> period \<noteq> 0 \<longrightarrow>
      (\<exists>otp. generateTOTPWithOffset tbl secret period timeOffset unixNow =
                Inr (otp, remainingSeconds (unixNow + timeOffset) period) \<and>
              length otp = 6))"
proof -
  have "unat (last (hmac_sha1 key (putUint64 counter)) AND 0x0f) \<le> 15"
    by (rule nibble_le)
  moreover from this have "unat (last (hmac_sha1 key (putUint64 counter)) AND 0x0f) + 4
      \<le> length (hmac_sha1 key (putUint64 counter))"
    by (simp add: length_hmac_sha1)
  moreover have "\<exists>t. truncatedHash key counter = Inr t \<and> unat t < 2 ^ 31 \<and>
        computeOTP key counter = Inr (sprintf_06d (unat t mod 1000000)) \<and>
        length (sprintf_06d (unat t mod 1000000)) = 6"
    using computeOTP_ok [of key counter] by blast
  moreover have "\<exists>otp. generateTOTPWithOffset tbl secret period timeOffset unixNow =
                Inr (otp, remainingSeconds (unixNow + timeOffset) period) \<and> length otp = 6"
    if "DecodeString (cleanSecret tbl secret) = Inr key" "period \<noteq> 0"
    using generate_after_decode [OF that] by blast
  moreover have "dynamicTruncation19 (hmac_sha1 key (putUint64 counter)) = truncatedHash key counter"
    unfolding truncatedHash_def by (rule dynamicTruncation19_same [OF length_hmac_sha1])
  ultimately show ?thesis
    using length_hmac_sha1 [of key "putUint64 counter"] by blast
qed

theorem truncation_in_bounds_witness:
  "DecodeString (cleanSecret id [74, 66, 83, 87, 89, 51, 68, 80, 69, 72, 80, 75, 51, 80, 88, 80])
     = Inr [72, 101, 108, 108, 111, 33, 222, 173, 190, 239] \<and>
   (30 :: int64) \<noteq> 0 \<and>
   (\<exists>otp. generateTOTPWithOffset id [74, 66, 83, 87, 89, 51, 68, 80, 69, 72, 80, 75, 51, 80, 88, 80]
             30 0 59 = Inr (otp, 1) \<and> length otp = 6)"
proof -
  have r: "remainingSeconds (59 + 0) 30 = 1"
    by (simp add: remainingSeconds_def int64_rem_def)
  show ?thesis
    using decode_JBSWY r
      truncation_in_bounds [where key = "[72, 101, 108, 108, 111, 33, 222, 173, 190, 239]"
        and counter = 1 and tbl = id and period = 30 and timeOffset = 0 and unixNow = 59
        and secret = "[74, 66, 83, 87, 89, 51, 68, 80, 69, 72, 80, 75, 51, 80, 88, 80]"]
    by simp
qed

text \<open>
  With the period zero the path after a successful decoding does panic: the division
  \<open>now / int64(period)\<close> comes before the HMAC.
\<close>

theorem zero_period_panics_counterexample:
  "generateTOTP id [71, 69, 90, 68, 71, 78, 66, 86, 71, 89, 51, 84, 81, 79, 74, 81,
       71, 69, 90, 68, 71, 78, 66, 86, 71, 89, 51, 84, 81, 79, 74, 81] 0 59
     = Inl (RuntimePanic DivideByZero)"
  by (simp add: generateTOTP_def generateTOTPWithOffset_def decode_GEZD)

text \<open>
  Claim C3, as the code has it. \<open>generateTOTPWithOffset\<close> rejects a request only when the
  Base32 decoding of the normalised secret fails; that error comes before the time counter
  is derived, whatever the period. The period is never tested: with a decodable secret and
  a negative period the counter is derived by the division and a code is returned.
\<close>

theorem period_not_validated:
  "(DecodeString (cleanSecret tbl secret) = Inl e \<longrightarrow>
      generateTOTPWithOffset tbl secret period timeOffset unixNow = Inl InvalidSecret) \<and>
   (DecodeString (cleanSecret tbl secret) = Inr key \<and> sint period < 0 \<longrightarrow>
      (\<exists>otp. computeOTP key (timeCounter (unixNow + timeOffset) period) = Inr otp \<and>
              generateTOTPWithOffset tbl secret period timeOffset unixNow =
                Inr (otp, remainingSeconds (unixNow + timeOffset) period)))"
proof (intro conjI impI)
  assume "DecodeString (cleanSecret tbl secret) = Inl e"
  then show "generateTOTPWithOffset tbl secret period timeOffset unixNow = Inl InvalidSecret"
    by (simp add: generateTOTPWithOffset_def)
next
  assume a: "DecodeString (cleanSecret tbl secret) = Inr key \<and> sint period < 0"
  then have "period \<noteq> 0" by auto
  with a generate_after_decode [of tbl secret key period unixNow timeOffset]
  show "\<exists>otp. computeOTP key (timeCounter (unixNow + timeOffset) period) = Inr otp \<and>
              generateTOTPWithOffset tbl secret period timeOffset unixNow =
                Inr (otp, remainingSeconds (unixNow + timeOffset) period)"
    by blast
qed

theorem period_not_validated_witness:
  "DecodeString (cleanSecret id [97, 98, 99]) = Inl InvalidSecret \<and>
   generateTOTPWithOffset id [97, 98, 99] (- 30) 0 59 = Inl InvalidSecret \<and>
   DecodeString (cleanSecret id [74, 66, 83, 87, 89, 51, 68, 80, 69, 72, 80, 75, 51, 80, 88, 80])
     = Inr [72, 101, 108, 108, 111, 33, 222, 173, 190, 239] \<and>
   sint (- 30 :: int64) < 0 \<and>
   (\<exists>otp. generateTOTPWithOffset id [74, 66, 83, 87, 89, 51, 68, 80, 69, 72, 80, 75, 51, 80, 88, 80]
            (- 30) 0 59 = Inr (otp, - 59))"
proof -
  have d: "DecodeString (cleanSecret id [97, 98, 99]) = Inl InvalidSecret"
    by (simp add: cleanSecret_def strings_ToUpper_def unicode_ToUpper_def isBase32Char_def
        DecodeString_def decodeLoop.simps decodeMap_def)
  have r: "remainingSeconds (59 + 0) (- 30) = - 59"
    by (simp add: remainingSeconds_def int64_rem_def)
  have n: "sint (- 30 :: int64) < 0" by simp
  from d period_not_validated [where tbl = id and secret = "[97, 98, 99]" and e = InvalidSecret
      and period = "- 30" and timeOffset = 0 and unixNow = 59]
  have 1: "generateTOTPWithOffset id [97, 98, 99] (- 30) 0 59 = Inl InvalidSecret"
    by blast
  from decode_JBSWY n r
    period_not_validated [where tbl = id and period = "- 30" and timeOffset = 0 and unixNow = 59
      and secret = "[74, 66, 83, 87, 89, 51, 68, 80, 69, 72, 80, 75, 51, 80, 88, 80]"
      and key = "[72, 101, 108, 108, 111, 33, 222, 173, 190, 239]"]
  have 2: "\<exists>otp. generateTOTPWithOffset id [74, 66, 83, 87, 89, 51, 68, 80, 69, 72, 80, 75, 51, 80, 88, 80]
            (- 30) 0 59 = Inr (otp, - 59)"
    by auto
  from d 1 decode_JBSWY n 2 show ?thesis by blast
qed

text \<open>
  A period of zero with a decodable secret is not rejected with an error of the function:
  the division by zero reaches the runtime.
\<close>

theorem zero_period_counterexample:
  "generateTOTPWithOffset id [74, 66, 83, 87, 89, 51, 68, 80, 69, 72, 80, 75, 51, 80, 88, 80] 0 0 59
     = Inl (RuntimePanic DivideByZero)"
  by (simp add: generateTOTPWithOffset_def decode_JBSWY)


section \<open>Properties of the credential stores\<close>

subsection \<open>Strings in JSON\<close>

lemma utf8_size_le: "utf8_size s \<le> length s"
  by (simp add: utf8_size_def)

lemma utf8_size_prefix:
  assumes "0 < utf8_size s"
  shows "utf8_size (take (utf8_size s) s @ t) = utf8_size s"
proof -
  define n where "n = utf8_size s"
  define u where "u = take n s @ t"
  define P where "P k x \<longleftrightarrow> k \<le> length x \<and> validRune (take k x)" for k and x :: string
  have size: "utf8_size x = (if P 1 x then 1 else if P 2 x then 2 else if P 3 x then 3
                              else if P 4 x then 4 else 0)" for x
    by (simp add: utf8_size_def P_def)
  have le: "n \<le> length s"
    unfolding n_def by (rule utf8_size_le)
  have eq: "P k u = P k s" if "k \<le> n" for k
  proof -
    have "take k u = take k s" "k \<le> length u" "k \<le> length s"
      using that le by (simp_all add: u_def min_def)
    then show ?thesis by (simp add: P_def)
  qed
  have pos: "0 < n" using assms by (simp add: n_def)
  have ns: "n = (if P 1 s then 1 else if P 2 s then 2 else if P 3 s then 3
                 else if P 4 s then 4 else 0)"
    unfolding n_def by (rule size)
  have "utf8_size u = n"
  proof (cases "P 1 s")
    case True
    with ns have "n = 1" by simp
    with True eq [of 1] show ?thesis by (simp add: size [of u])
  next
    case n1: False
    show ?thesis
    proof (cases "P 2 s")
      case True
      with n1 ns have "n = 2" by simp
      with True n1 eq [of 1] eq [of 2] show ?thesis by (simp add: size [of u])
    next
      case n2: False
      show ?thesis
      proof (cases "P 3 s")
        case True
        with n1 n2 ns have "n = 3" by simp
        with True n1 n2 eq [of 1] eq [of 2] eq [of 3] show ?thesis by (simp add: size [of u])
      next
        case n3: False
        with n1 n2 ns pos have "P 4 s" "n = 4" by (simp_all split: if_splits)
        with n1 n2 n3 eq [of 1] eq [of 2] eq [of 3] eq [of 4] show ?thesis
          by (simp add: size [of u])
      qed
    qed
  qed
  then show ?thesis by (simp add: u_def n_def)
qed

lemma utf8_size_replacement: "utf8_size (replacementChar @ t) = 3"
  by (simp add: replacementChar_def utf8_size_def inRange_def)

lemma json_string_replacement:
  "json_string (replacementChar @ t) = replacementChar @ json_string t"
proof -
  have "json_string (replacementChar @ t) =
      take 3 (replacementChar @ t) @ json_string (drop 3 (replacementChar @ t))"
    using utf8_size_replacement [of t]
    by (simp add: replacementChar_def json_string.simps)
  then show ?thesis by (simp add: replacementChar_def)
qed

lemma json_string_valid_prefix:
  assumes "0 < utf8_size s"
  shows "json_string (take (utf8_size s) s @ t) = take (utf8_size s) s @ json_string t"
proof -
  let ?n = "utf8_size s"
  let ?p = "take ?n s"
  from utf8_size_prefix [OF assms, of t] utf8_size_le [of s]
  have n: "?n \<le> length s" "utf8_size (?p @ t) = ?n"
    by simp_all
  then have len: "length ?p = ?n" by simp
  with assms obtain b r where br: "?p @ t = b # r"
    by (cases "?p @ t") auto
  have "json_string (?p @ t) = take ?n (?p @ t) @ json_string (drop ?n (?p @ t))"
    using n(2) assms by (simp only: br json_string.simps) simp
  then show ?thesis using len by simp
qed

lemma json_string_idem: "json_string (json_string s) = json_string s"
proof (induction s rule: json_string.induct)
  case 1
  then show ?case by (simp add: json_string.simps)
next
  case (2 b r)
  show ?case
  proof (cases "utf8_size (b # r) = 0")
    case True
    with 2(1) show ?thesis
      by (simp add: json_string.simps(2) [of b r] json_string_replacement)
  next
    case False
    then have pos: "0 < utf8_size (b # r)" by simp
    from 2(2) [OF False] pos show ?thesis
      by (simp add: json_string.simps(2) [of b r] json_string_valid_prefix)
  qed
qed

lemma json_string_ascii:
  "list_all (\<lambda>c. inRange c 0x00 0x7F) s \<Longrightarrow> json_string s = s"
  by (induction s) (simp_all add: json_string.simps utf8_size_def)

subsection \<open>The upsert of the specification\<close>

lemma spec_upsert_append:
  "key new \<notin> key ` set es \<Longrightarrow> spec_upsert key new es = es @ [new]"
  by (induction es) auto

lemma spec_upsert_in_place:
  "key new \<in> key ` set es \<Longrightarrow>
   \<exists>i < length es. key (es ! i) = key new \<and> (\<forall>j < i. key (es ! j) \<noteq> key new) \<and>
       spec_upsert key new es = es[i := new]"
proof (induction es)
  case Nil
  then show ?case by simp
next
  case (Cons x xs)
  show ?case
  proof (cases "key x = key new")
    case True
    then have "key ((x # xs) ! 0) = key new \<and> (\<forall>j < 0. key ((x # xs) ! j) \<noteq> key new) \<and>
       spec_upsert key new (x # xs) = (x # xs)[0 := new]" by simp
    then show ?thesis by (intro exI [of _ 0]) simp
  next
    case False
    with Cons.prems have "key new \<in> key ` set xs" by auto
    from Cons.IH [OF this] obtain i where i: "i < length xs" "key (xs ! i) = key new"
      "\<forall>j < i. key (xs ! j) \<noteq> key new" "spec_upsert key new xs = xs[i := new]" by blast
    have "\<forall>j < Suc i. key ((x # xs) ! j) \<noteq> key new"
      using False i(3) by (auto simp: less_Suc_eq_0_disj)
    with i False show ?thesis
      by (intro exI [of _ "Suc i"]) simp
  qed
qed

lemma spec_upsert_keys:
  "key new \<in> key ` set es \<Longrightarrow> map key (spec_upsert key new es) = map key es"
  by (induction es) auto

lemma spec_upsert_length:
  "length (spec_upsert key new es) = (if key new \<in> key ` set es then length es else Suc (length es))"
  by (induction es) auto

lemma spec_upsert_distinct:
  "distinct (map key es) \<Longrightarrow> distinct (map key (spec_upsert key new es))"
proof (cases "key new \<in> key ` set es")
  case True
  assume "distinct (map key es)"
  then show ?thesis by (simp add: spec_upsert_keys [OF True])
next
  case False
  assume "distinct (map key es)"
  with False show ?thesis by (simp add: spec_upsert_append)
qed

subsection \<open>The three loops\<close>

lemma mfaIndex_shift: "mfaIndex a n es (k + 1) = map_option Suc (mfaIndex a n es k)"
  by (induction es arbitrary: k) auto

lemma mfa_upsert:
  "mfaKey new = (a, n) \<Longrightarrow>
   (case mfaIndex a n es 0 of Some i \<Rightarrow> es[i := new] | None \<Rightarrow> es @ [new]) = spec_upsert mfaKey new es"
proof (induction es)
  case Nil
  then show ?case by simp
next
  case (Cons x xs)
  then show ?case
    using mfaIndex_shift [of a n xs 0]
    by (auto simp: mfaKey_def split: option.splits)
qed

lemma passIndex_shift: "passIndex n a es (k + 1) = map_option Suc (passIndex n a es k)"
  by (induction es arbitrary: k) auto

lemma pass_upsert:
  "pwKey new = (n, a) \<Longrightarrow>
   (case passIndex n a es 0 of Some i \<Rightarrow> es[i := new] | None \<Rightarrow> es @ [new]) = spec_upsert pwKey new es"
proof (induction es)
  case Nil
  then show ?case by simp
next
  case (Cons x xs)
  then show ?case
    using passIndex_shift [of n a xs 0]
    by (auto simp: pwKey_def split: option.splits)
qed

lemma pinIndex_shift: "pinIndex n a es (k + 1) = map_option Suc (pinIndex n a es k)"
  by (induction es arbitrary: k) auto

lemma pinIndex_Some:
  "pinIndex n a es 0 = Some i \<Longrightarrow> i < length es \<and> pin_Name (es ! i) = n \<and> pin_Account (es ! i) = a"
proof (induction es arbitrary: i)
  case Nil
  then show ?case by simp
next
  case (Cons x xs)
  then show ?case
    using pinIndex_shift [of n a xs 0]
    by (auto split: if_splits)
qed

lemma pin_upsert:
  "(case pinIndex n a es 0 of
      Some i \<Rightarrow> es[i := (es ! i)\<lparr>pin_PIN := pin\<rparr>]
    | None \<Rightarrow> es @ [\<lparr>pin_Name = n, pin_Account = a, pin_PIN = pin\<rparr>])
   = spec_upsert pinKey \<lparr>pin_Name = n, pin_Account = a, pin_PIN = pin\<rparr> es"
proof (induction es)
  case Nil
  then show ?case by simp
next
  case (Cons x xs)
  then show ?case
    using pinIndex_shift [of n a xs 0]
    by (cases x) (auto simp: pinKey_def split: option.splits)
qed

lemma spec_upsert_upserted: "upserted key new es (spec_upsert key new es)"
  using spec_upsert_in_place [of key new es] spec_upsert_append [of key new es]
    spec_upsert_keys [of key new es] spec_upsert_length [of key new es]
    spec_upsert_distinct [of key es new]
  by (simp add: upserted_def)

lemma spec_upsert_map:
  assumes "map c es = es" and "key (c new) = key new"
  shows "map c (spec_upsert key new es) = spec_upsert key (c new) es"
  using assms by (induction es) auto

subsection \<open>Strings of the entries\<close>

lemma mfaStrings_idem: "mfaStrings (mfaStrings x) = mfaStrings x"
  by (simp add: mfaStrings_def json_string_idem)

lemma pinStrings_idem: "pinStrings (pinStrings x) = pinStrings x"
  by (simp add: pinStrings_def json_string_idem)

lemma pwStrings_idem: "pwStrings (pwStrings x) = pwStrings x"
  by (simp add: pwStrings_def json_string_idem)

lemma mfaKey_strings:
  "json_string (mfa_Account x) = mfa_Account x \<Longrightarrow> json_string (mfa_Name x) = mfa_Name x \<Longrightarrow>
   mfaKey (mfaStrings x) = mfaKey x"
  by (simp add: mfaKey_def mfaStrings_def)

lemma pinKey_strings:
  "json_string (pin_Name x) = pin_Name x \<Longrightarrow> json_string (pin_Account x) = pin_Account x \<Longrightarrow>
   pinKey (pinStrings x) = pinKey x"
  by (simp add: pinKey_def pinStrings_def)

lemma pwKey_strings:
  "json_string (pw_Name x) = pw_Name x \<Longrightarrow> json_string (pw_Account x) = pw_Account x \<Longrightarrow>
   pwKey (pwStrings x) = pwKey x"
  by (simp add: pwKey_def pwStrings_def)

subsection \<open>Loading and saving\<close>

lemma loadMFA_path: "loadMFAStorage e f = Inr es \<Longrightarrow> getConfigPath e = Inr ()"
  by (auto simp: loadMFAStorage_def split: sum.splits)

lemma loadPassword_path: "loadPasswordStorage e f = Inr es \<Longrightarrow> getPasswordConfigPath e = Inr ()"
  by (auto simp: loadPasswordStorage_def split: sum.splits)

lemma loadMPIN_path: "loadMPINConfig e f = Inr es \<Longrightarrow> getMPINConfigPath e = Inr ()"
  by (auto simp: loadMPINConfig_def split: sum.splits)

lemma loadMFA_strings: "loadMFAStorage e f = Inr es \<Longrightarrow> map mfaStrings es = es"
  by (auto simp: loadMFAStorage_def json_Unmarshal_def mfaStrings_idem
        split: sum.splits if_splits content.splits)

lemma loadPassword_strings: "loadPasswordStorage e f = Inr es \<Longrightarrow> map pwStrings es = es"
  by (auto simp: loadPasswordStorage_def json_Unmarshal_def pwStrings_idem
        split: sum.splits if_splits content.splits)

lemma loadMPIN_strings: "loadMPINConfig e f = Inr es \<Longrightarrow> map pinStrings es = es"
  by (auto simp: loadMPINConfig_def json_Unmarshal_def pinStrings_idem
        split: sum.splits if_splits content.splits)

lemma SetupMFA_upsert:
  assumes "DecodeString (cleanSecret tbl secret) = Inr key" and "period \<noteq> 0"
    and "loadMFAStorage e f = Inr entries" and "write_ok e"
  shows "SetupMFA tbl e unixNow account name secret period f =
           (Inr (), Data (Json (map mfaStrings (spec_upsert mfaKey
              \<lparr>mfa_Account = account, mfa_Name = name, mfa_Secret = secret, mfa_Period = period\<rparr>
              entries))))"
proof -
  obtain otp where "generateTOTP tbl secret period unixNow
      = Inr (otp, remainingSeconds (unixNow + 0) period)"
    using generate_after_decode [OF assms(1,2), of unixNow 0]
    unfolding generateTOTP_def by blast
  moreover have "saveMFAStorage e es f = (Inr (), Data (Json (map mfaStrings es)))" for es
    using loadMFA_path [OF assms(3)] assms(4)
    by (simp add: saveMFAStorage_def os_WriteFile_def json_MarshalIndent_def)
  moreover note mfa_upsert [where new = "\<lparr>mfa_Account = account, mfa_Name = name, mfa_Secret = secret,
      mfa_Period = period\<rparr>" and a = account and n = name and es = entries, symmetric]
  ultimately show ?thesis
    using assms(3) by (simp add: SetupMFA_def Let_def mfaKey_def split: option.splits)
qed

lemma AddPassword_upsert:
  assumes "name \<noteq> []" and "account \<noteq> []"
    and "generatePassword e len a b c s src = Inr password"
    and "loadPasswordStorage e f = Inr entries" and "write_ok e"
  shows "AddPassword e src name account len a b c s f =
           (Inr (), Data (Json (map pwStrings (spec_upsert pwKey
              \<lparr>pw_Name = name, pw_Account = account, pw_Password = password, pw_Length = len,
               pw_Config = configString a b c s\<rparr> entries))))"
proof -
  have "savePasswordStorage e es f = (Inr (), Data (Json (map pwStrings es)))" for es
    using loadPassword_path [OF assms(4)] assms(5)
    by (simp add: savePasswordStorage_def os_WriteFile_def json_MarshalIndent_def)
  moreover note pass_upsert [where new = "\<lparr>pw_Name = name, pw_Account = account, pw_Password = password,
      pw_Length = len, pw_Config = configString a b c s\<rparr>" and n = name and a = account
      and es = entries, symmetric]
  ultimately show ?thesis
    using assms(1-4) by (simp add: AddPassword_def Let_def pwKey_def split: option.splits)
qed

lemma AddMPIN_upsert:
  assumes "name \<noteq> []" and "account \<noteq> []"
    and "generateMPIN e len src = Inr pin"
    and "loadMPINConfig e f = Inr entries" and "write_ok e"
  shows "AddMPIN e src name account len f =
           (Inr (), Data (Json (map pinStrings (spec_upsert pinKey
              \<lparr>pin_Name = name, pin_Account = account, pin_PIN = pin\<rparr> entries))))"
proof -
  have sv: "saveMPINConfig e es f = (Inr (), Data (Json (map pinStrings es)))" for es
    using loadMPIN_path [OF assms(4)] assms(5)
    by (simp add: saveMPINConfig_def os_WriteFile_def json_MarshalIndent_def)
  have pos: "\<not> sint len \<le> 0"
    using assms(3) by (auto simp: generateMPIN_def split: if_splits)
  show ?thesis
    using assms(1-4) pos sv
      pin_upsert [where n = name and a = account and es = entries and pin = pin, symmetric]
    by (simp add: AddMPIN_def split: option.splits)
qed

subsection \<open>The upsert operations\<close>

lemma pinLoop_numeral:
  "pinLoop (numeral k) src pos =
     (case rand_Int src pos 10 of
        Inl err \<Rightarrow> Inl RandomError
      | Inr digit \<Rightarrow>
          (case pinLoop (pred_numeral k) src (pos + 1) of
             Inl err \<Rightarrow> Inl err
           | Inr pin \<Rightarrow> Inr (digitChar digit # pin)))"
  by (simp add: numeral_eq_Suc)

lemma passwordLoop_numeral:
  "passwordLoop (numeral k) charset src pos =
     (case rand_Int src pos (length charset) of
        Inl err \<Rightarrow> Inl RandomError
      | Inr randomIndex \<Rightarrow>
          (case passwordLoop (pred_numeral k) charset src (pos + 1) of
             Inl err \<Rightarrow> Inl err
           | Inr password \<Rightarrow> Inr (charset ! randomIndex # password)))"
  by (simp add: numeral_eq_Suc)

lemma pin_example: "generateMPIN healthyEnv 4 steadySource = Inr ''3074''"
  by (simp add: generateMPIN_def healthyEnv_def pinLoop_numeral rand_Int_def steadySource_def
        digitChar_def char_of_eq_iff)

lemma password_example:
  "generatePassword healthyEnv 2 True False False [] steadySource = Inr ''dk''"
  by (simp add: generatePassword_def healthyEnv_def effectiveCharset_def buildCharset_def
        lowerChars_def passwordLoop_numeral rand_Int_def steadySource_def)

lemma json_string_invalid: "json_string [CHR 0xFF] = replacementChar"
  by (simp add: json_string.simps utf8_size_def inRange_def)

lemma json_string_replacementChar: "json_string replacementChar = replacementChar"
  using json_string_replacement [of "[]"] by (simp add: json_string.simps)

text \<open>
  Claim C5, for keys that JSON keeps. When \<open>SetupMFA\<close>, \<open>AddPassword\<close> or \<open>AddMPIN\<close>
  succeeds and the account and the name are valid UTF-8, the collection it stores is the one
  loaded with the new entry, as JSON writes its strings, upserted: an entry with the same key
  is replaced at its index, size and order of the keys unchanged; without such an entry the
  new one is appended at the end; and unique keys stay unique.
\<close>
theorem upsert_semantics:
  "(DecodeString (cleanSecret tbl secret) = Inr key \<and> period \<noteq> 0 \<and>
    loadMFAStorage e mf = Inr ms \<and> write_ok e \<and>
    json_string account = account \<and> json_string name = name \<longrightarrow>
      SetupMFA tbl e unixNow account name secret period mf =
        (Inr (), Data (Json (spec_upsert mfaKey
           \<lparr>mfa_Account = account, mfa_Name = name, mfa_Secret = secret, mfa_Period = period\<rparr> ms))) \<and>
      upserted mfaKey
        \<lparr>mfa_Account = account, mfa_Name = name, mfa_Secret = secret, mfa_Period = period\<rparr> ms
        (spec_upsert mfaKey
           \<lparr>mfa_Account = account, mfa_Name = name, mfa_Secret = secret, mfa_Period = period\<rparr> ms)) \<and>
   (name \<noteq> [] \<and> account \<noteq> [] \<and> generatePassword e len a b c s src = Inr password \<and>
    loadPasswordStorage e pf = Inr ps \<and> write_ok e \<and>
    json_string name = name \<and> json_string account = account \<longrightarrow>
      AddPassword e src name account len a b c s pf =
        (Inr (), Data (Json (spec_upsert pwKey
           \<lparr>pw_Name = name, pw_Account = account, pw_Password = json_string password,
            pw_Length = len, pw_Config = json_string (configString a b c s)\<rparr> ps))) \<and>
      upserted pwKey
        \<lparr>pw_Name = name, pw_Account = account, pw_Password = json_string password,
         pw_Length = len, pw_Config = json_string (configString a b c s)\<rparr> ps
        (spec_upsert pwKey
           \<lparr>pw_Name = name, pw_Account = account, pw_Password = json_string password,
            pw_Length = len, pw_Config = json_string (configString a b c s)\<rparr> ps)) \<and>
   (name \<noteq> [] \<and> account \<noteq> [] \<and> generateMPIN e len src = Inr pin \<and>
    loadMPINConfig e nf = Inr ns \<and> write_ok e \<and>
    json_string name = name \<and> json_string account = account \<longrightarrow>
      AddMPIN e src name account len nf =
        (Inr (), Data (Json (spec_upsert pinKey
           \<lparr>pin_Name = name, pin_Account = account, pin_PIN = json_string pin\<rparr> ns))) \<and>
      upserted pinKey \<lparr>pin_Name = name, pin_Account = account, pin_PIN = json_string pin\<rparr> ns
        (spec_upsert pinKey
           \<lparr>pin_Name = name, pin_Account = account, pin_PIN = json_string pin\<rparr> ns))"
proof (intro conjI impI spec_upsert_upserted)
  assume h: "DecodeString (cleanSecret tbl secret) = Inr key \<and> period \<noteq> 0 \<and>
    loadMFAStorage e mf = Inr ms \<and> write_ok e \<and>
    json_string account = account \<and> json_string name = name"
  let ?new = "\<lparr>mfa_Account = account, mfa_Name = name, mfa_Secret = secret, mfa_Period = period\<rparr>"
  from h have n: "mfaStrings ?new = ?new" by (simp add: mfaStrings_def)
  from h have "map mfaStrings ms = ms" by (blast intro: loadMFA_strings)
  from spec_upsert_map [OF this, of mfaKey ?new] n
  have "map mfaStrings (spec_upsert mfaKey ?new ms) = spec_upsert mfaKey ?new ms" by simp
  with h SetupMFA_upsert [of tbl secret key period e mf ms unixNow account name]
  show "SetupMFA tbl e unixNow account name secret period mf =
      (Inr (), Data (Json (spec_upsert mfaKey ?new ms)))" by simp
next
  assume h: "name \<noteq> [] \<and> account \<noteq> [] \<and> generatePassword e len a b c s src = Inr password \<and>
    loadPasswordStorage e pf = Inr ps \<and> write_ok e \<and>
    json_string name = name \<and> json_string account = account"
  let ?new = "\<lparr>pw_Name = name, pw_Account = account, pw_Password = password, pw_Length = len,
               pw_Config = configString a b c s\<rparr>"
  let ?new' = "\<lparr>pw_Name = name, pw_Account = account, pw_Password = json_string password,
            pw_Length = len, pw_Config = json_string (configString a b c s)\<rparr>"
  from h have n: "pwStrings ?new = ?new'" by (simp add: pwStrings_def)
  from h have "map pwStrings ps = ps" by (blast intro: loadPassword_strings)
  from spec_upsert_map [OF this, of pwKey ?new] n
  have "map pwStrings (spec_upsert pwKey ?new ps) = spec_upsert pwKey ?new' ps"
    by (simp add: pwKey_def)
  with h AddPassword_upsert [of name account e len a b c s src password pf ps]
  show "AddPassword e src name account len a b c s pf =
      (Inr (), Data (Json (spec_upsert pwKey ?new' ps)))" by simp
next
  assume h: "name \<noteq> [] \<and> account \<noteq> [] \<and> generateMPIN e len src = Inr pin \<and>
    loadMPINConfig e nf = Inr ns \<and> write_ok e \<and>
    json_string name = name \<and> json_string account = account"
  let ?new = "\<lparr>pin_Name = name, pin_Account = account, pin_PIN = pin\<rparr>"
  let ?new' = "\<lparr>pin_Name = name, pin_Account = account, pin_PIN = json_string pin\<rparr>"
  from h have n: "pinStrings ?new = ?new'" by (simp add: pinStrings_def)
  from h have "map pinStrings ns = ns" by (blast intro: loadMPIN_strings)
  from spec_upsert_map [OF this, of pinKey ?new] n
  have "map pinStrings (spec_upsert pinKey ?new ns) = spec_upsert pinKey ?new' ns"
    by (simp add: pinKey_def)
  with h AddMPIN_upsert [of name account e len src pin nf ns]
  show "AddMPIN e src name account len nf =
      (Inr (), Data (Json (spec_upsert pinKey ?new' ns)))" by simp
qed

lemma ascii_strings:
  "json_string ''github'' = ''github''" "json_string ''google'' = ''google''"
  "json_string ''a'' = ''a''" "json_string ''b'' = ''b''" "json_string ''site'' = ''site''"
  "json_string ''u'' = ''u''" "json_string ''old'' = ''old''" "json_string ''dk'' = ''dk''"
  "json_string ''digits'' = ''digits''" "json_string ''lowercase'' = ''lowercase''"
  "json_string ''bank'' = ''bank''" "json_string ''mail'' = ''mail''" "json_string ''me'' = ''me''"
  "json_string ''1234'' = ''1234''" "json_string ''3074'' = ''3074''"
  by (simp_all add: json_string_ascii inRange_def)

theorem upsert_semantics_witness:
  "DecodeString (cleanSecret id [74, 66, 83, 87, 89, 51, 68, 80, 69, 72, 80, 75, 51, 80, 88, 80])
     = Inr [72, 101, 108, 108, 111, 33, 222, 173, 190, 239] \<and>
   (30 :: int64) \<noteq> 0 \<and> write_ok healthyEnv \<and>
   json_string ''github'' = ''github'' \<and> json_string ''b'' = ''b'' \<and>
   SetupMFA id healthyEnv 59 ''github'' ''b''
       [74, 66, 83, 87, 89, 51, 68, 80, 69, 72, 80, 75, 51, 80, 88, 80] 30
       (Data (Json [\<lparr>mfa_Account = ''github'', mfa_Name = ''b'', mfa_Secret = [77, 70, 82, 71, 71],
                      mfa_Period = 60\<rparr>,
                    \<lparr>mfa_Account = ''google'', mfa_Name = ''a'', mfa_Secret = [77, 70, 82, 71, 71],
                      mfa_Period = 30\<rparr>]))
     = (Inr (),
        Data (Json [\<lparr>mfa_Account = ''github'', mfa_Name = ''b'',
                      mfa_Secret = [74, 66, 83, 87, 89, 51, 68, 80, 69, 72, 80, 75, 51, 80, 88, 80],
                      mfa_Period = 30\<rparr>,
                    \<lparr>mfa_Account = ''google'', mfa_Name = ''a'', mfa_Secret = [77, 70, 82, 71, 71],
                      mfa_Period = 30\<rparr>])) \<and>
   generatePassword healthyEnv 2 True False False [] steadySource = Inr ''dk'' \<and>
   json_string ''site'' = ''site'' \<and> json_string ''u'' = ''u'' \<and>
   AddPassword healthyEnv steadySource ''site'' ''u'' 2 True False False []
       (Data (Json [\<lparr>pw_Name = ''site'', pw_Account = ''u'', pw_Password = ''old'', pw_Length = 3,
                      pw_Config = ''digits''\<rparr>]))
     = (Inr (),
        Data (Json [\<lparr>pw_Name = ''site'', pw_Account = ''u'', pw_Password = ''dk'', pw_Length = 2,
                      pw_Config = ''lowercase''\<rparr>])) \<and>
   generateMPIN healthyEnv 4 steadySource = Inr ''3074'' \<and>
   json_string ''mail'' = ''mail'' \<and> json_string ''me'' = ''me'' \<and>
   AddMPIN healthyEnv steadySource ''mail'' ''me'' 4
       (Data (Json [\<lparr>pin_Name = ''bank'', pin_Account = ''me'', pin_PIN = ''1234''\<rparr>]))
     = (Inr (),
        Data (Json [\<lparr>pin_Name = ''bank'', pin_Account = ''me'', pin_PIN = ''1234''\<rparr>,
                    \<lparr>pin_Name = ''mail'', pin_Account = ''me'', pin_PIN = ''3074''\<rparr>]))"
proof -
  have w: "write_ok healthyEnv" by (simp add: healthyEnv_def)
  have l1: "loadMFAStorage healthyEnv (Data (Json ms)) = Inr (map mfaStrings ms)" for ms
    by (simp add: loadMFAStorage_def getConfigPath_def healthyEnv_def os_IsNotExist_def
          os_ReadFile_def len_data_def json_Unmarshal_def)
  have l2: "loadPasswordStorage healthyEnv (Data (Json ps)) = Inr (map pwStrings ps)" for ps
    by (simp add: loadPasswordStorage_def getPasswordConfigPath_def healthyEnv_def
          os_IsNotExist_def os_ReadFile_def len_data_def json_Unmarshal_def)
  have l3: "loadMPINConfig healthyEnv (Data (Json ns)) = Inr (map pinStrings ns)" for ns
    by (simp add: loadMPINConfig_def getMPINConfigPath_def healthyEnv_def os_IsNotExist_def
          os_ReadFile_def json_Unmarshal_def)
  have c: "configString True False False [] = ''lowercase''"
    by (simp add: configString_def)
  note u = upsert_semantics [where tbl = id and e = healthyEnv and src = steadySource]
  from u [where secret = "[74, 66, 83, 87, 89, 51, 68, 80, 69, 72, 80, 75, 51, 80, 88, 80]"
      and key = "[72, 101, 108, 108, 111, 33, 222, 173, 190, 239]" and period = 30
      and unixNow = 59 and account = "''github''" and name = "''b''"
      and mf = "Data (Json [\<lparr>mfa_Account = ''github'', mfa_Name = ''b'', mfa_Secret = [77, 70, 82, 71, 71],
                      mfa_Period = 60\<rparr>,
                    \<lparr>mfa_Account = ''google'', mfa_Name = ''a'', mfa_Secret = [77, 70, 82, 71, 71],
                      mfa_Period = 30\<rparr>])"]
    decode_JBSWY w l1
  have 1: "SetupMFA id healthyEnv 59 ''github'' ''b''
       [74, 66, 83, 87, 89, 51, 68, 80, 69, 72, 80, 75, 51, 80, 88, 80] 30
       (Data (Json [\<lparr>mfa_Account = ''github'', mfa_Name = ''b'', mfa_Secret = [77, 70, 82, 71, 71],
                      mfa_Period = 60\<rparr>,
                    \<lparr>mfa_Account = ''google'', mfa_Name = ''a'', mfa_Secret = [77, 70, 82, 71, 71],
                      mfa_Period = 30\<rparr>]))
     = (Inr (),
        Data (Json [\<lparr>mfa_Account = ''github'', mfa_Name = ''b'',
                      mfa_Secret = [74, 66, 83, 87, 89, 51, 68, 80, 69, 72, 80, 75, 51, 80, 88, 80],
                      mfa_Period = 30\<rparr>,
                    \<lparr>mfa_Account = ''google'', mfa_Name = ''a'', mfa_Secret = [77, 70, 82, 71, 71],
                      mfa_Period = 30\<rparr>]))"
    by (simp add: mfaKey_def mfaStrings_def ascii_strings)
  from u [where name = "''site''" and account = "''u''" and len = 2 and a = True and b = False
      and c = False and s = "[]" and password = "''dk''"
      and pf = "Data (Json [\<lparr>pw_Name = ''site'', pw_Account = ''u'', pw_Password = ''old'',
                 pw_Length = 3, pw_Config = ''digits''\<rparr>])"]
    password_example w l2 c
  have 2: "AddPassword healthyEnv steadySource ''site'' ''u'' 2 True False False []
       (Data (Json [\<lparr>pw_Name = ''site'', pw_Account = ''u'', pw_Password = ''old'', pw_Length = 3,
                      pw_Config = ''digits''\<rparr>]))
     = (Inr (),
        Data (Json [\<lparr>pw_Name = ''site'', pw_Account = ''u'', pw_Password = ''dk'', pw_Length = 2,
                      pw_Config = ''lowercase''\<rparr>]))"
    by (simp add: pwKey_def pwStrings_def ascii_strings)
  from u [where name = "''mail''" and account = "''me''" and len = 4 and pin = "''3074''"
      and nf = "Data (Json [\<lparr>pin_Name = ''bank'', pin_Account = ''me'', pin_PIN = ''1234''\<rparr>])"]
    pin_example w l3
  have 3: "AddMPIN healthyEnv steadySource ''mail'' ''me'' 4
       (Data (Json [\<lparr>pin_Name = ''bank'', pin_Account = ''me'', pin_PIN = ''1234''\<rparr>]))
     = (Inr (),
        Data (Json [\<lparr>pin_Name = ''bank'', pin_Account = ''me'', pin_PIN = ''1234''\<rparr>,
                    \<lparr>pin_Name = ''mail'', pin_Account = ''me'', pin_PIN = ''3074''\<rparr>]))"
    by (simp add: pinKey_def pinStrings_def ascii_strings)
  from decode_JBSWY w 1 password_example 2 pin_example 3 show ?thesis
    by (simp add: ascii_strings)
qed

text \<open>
  A name that is not valid UTF-8 is stored as U+FFFD and is not found again: adding a PIN
  for the name of the single byte \<open>0xFF\<close> twice stores two entries with one key.
\<close>

theorem invalid_utf8_key_counterexample:
  "AddMPIN healthyEnv steadySource [CHR 0xFF] ''me'' 4 NoFile
     = (Inr (), Data (Json [\<lparr>pin_Name = [CHR 0xEF, CHR 0xBF, CHR 0xBD], pin_Account = ''me'',
                             pin_PIN = ''3074''\<rparr>])) \<and>
   AddMPIN healthyEnv steadySource [CHR 0xFF] ''me'' 4
       (Data (Json [\<lparr>pin_Name = [CHR 0xEF, CHR 0xBF, CHR 0xBD], pin_Account = ''me'',
                      pin_PIN = ''3074''\<rparr>]))
     = (Inr (), Data (Json [\<lparr>pin_Name = [CHR 0xEF, CHR 0xBF, CHR 0xBD], pin_Account = ''me'',
                             pin_PIN = ''3074''\<rparr>,
                           \<lparr>pin_Name = [CHR 0xEF, CHR 0xBF, CHR 0xBD], pin_Account = ''me'',
                             pin_PIN = ''3074''\<rparr>])) \<and>
   \<not> distinct (map pinKey [\<lparr>pin_Name = [CHR 0xEF, CHR 0xBF, CHR 0xBD], pin_Account = ''me'',
                              pin_PIN = ''3074''\<rparr>,
                            \<lparr>pin_Name = [CHR 0xEF, CHR 0xBF, CHR 0xBD], pin_Account = ''me'',
                              pin_PIN = ''3074''\<rparr>])"
proof -
  have r: "json_string [CHR 0xEF, CHR 0xBF, CHR 0xBD] = [CHR 0xEF, CHR 0xBF, CHR 0xBD]"
    using json_string_replacementChar by (simp add: replacementChar_def)
  have i: "json_string [CHR 0xFF] = [CHR 0xEF, CHR 0xBF, CHR 0xBD]"
    using json_string_invalid by (simp add: replacementChar_def)
  show ?thesis
    by (simp add: AddMPIN_def loadMPINConfig_def getMPINConfigPath_def healthyEnv_def
          os_IsNotExist_def os_ReadFile_def json_Unmarshal_def saveMPINConfig_def os_WriteFile_def
          json_MarshalIndent_def pinStrings_def r i ascii_strings
          pin_example [unfolded healthyEnv_def])
qed

lemma load_common_cases:
  "home_ok e \<and> mkdir_ok e \<longrightarrow>
     loadMFAStorage e NoFile = Inr [] \<and> loadPasswordStorage e NoFile = Inr [] \<and>
     loadMPINConfig e NoFile = Inr [] \<and>
     loadMFAStorage e Unreadable = Inl ReadError \<and> loadPasswordStorage e Unreadable = Inl ReadError \<and>
     loadMPINConfig e Unreadable = Inl ReadError \<and>
     loadMFAStorage e (Data Malformed) = Inl ParseError \<and>
     loadPasswordStorage e (Data Malformed) = Inl ParseError \<and>
     loadMPINConfig e (Data Malformed) = Inl ParseError \<and>
     loadMFAStorage e (Data (Json ms)) = Inr (map mfaStrings ms) \<and>
     loadPasswordStorage e (Data (Json ps)) = Inr (map pwStrings ps) \<and>
     loadMPINConfig e (Data (Json ns)) = Inr (map pinStrings ns)"
  by (simp add: loadMFAStorage_def loadPasswordStorage_def loadMPINConfig_def getConfigPath_def
        getPasswordConfigPath_def getMPINConfigPath_def os_IsNotExist_def os_ReadFile_def
        len_data_def json_Unmarshal_def)

text \<open>
  Claim C6 at a zero-length file. \<open>loadMFAStorage\<close> and \<open>loadPasswordStorage\<close> test
  \<open>len(data) == 0\<close> and return the empty collection; \<open>loadMPINConfig\<close> has no such test
  and returns the parse error of \<open>json.Unmarshal\<close>.
\<close>
theorem empty_pin_file_is_parse_error:
  "loadMPINConfig healthyEnv (Data ZeroLength) = Inl ParseError \<and>
   loadMFAStorage healthyEnv (Data ZeroLength) = Inr [] \<and>
   loadPasswordStorage healthyEnv (Data ZeroLength) = Inr []"
  by (simp add: loadMFAStorage_def loadPasswordStorage_def loadMPINConfig_def getConfigPath_def
        getPasswordConfigPath_def getMPINConfigPath_def os_IsNotExist_def os_ReadFile_def
        len_data_def json_Unmarshal_def healthyEnv_def)

text \<open>
  Claim C7. With a length \<open>L \<le> 0\<close>, \<open>AddMPIN\<close> and \<open>AddPassword\<close> fail with a validation
  error (for the names, when one is empty, else for the length) and the file is as before.
\<close>
theorem nonpositive_length_rejected:
  assumes "sint len \<le> 0"
  shows "generateMPIN e len src = Inl NonPositiveLength \<and>
         generatePassword e len a b c s src = Inl NonPositiveLength \<and>
         AddMPIN e src name account len nf =
           (Inl (if name = [] \<or> account = [] then EmptyNameOrAccount else NonPositiveLength), nf) \<and>
         AddPassword e src name account len a b c s pf =
           (Inl (if name = [] \<or> account = [] then EmptyNameOrAccount else NonPositiveLength), pf) \<and>
         isValidationError (if name = [] \<or> account = [] then EmptyNameOrAccount
                            else NonPositiveLength)"
  using assms
  by (simp add: generateMPIN_def generatePassword_def AddMPIN_def AddPassword_def
        isValidationError_def)

theorem nonpositive_length_rejected_witness:
  "sint (0 :: int64) \<le> 0 \<and>
   AddMPIN healthyEnv steadySource ''bank'' ''me'' 0
       (Data (Json [\<lparr>pin_Name = ''bank'', pin_Account = ''me'', pin_PIN = ''1234''\<rparr>]))
     = (Inl NonPositiveLength,
        Data (Json [\<lparr>pin_Name = ''bank'', pin_Account = ''me'', pin_PIN = ''1234''\<rparr>])) \<and>
   AddPassword healthyEnv steadySource ''site'' ''u'' 0 True True True [] NoFile
     = (Inl NonPositiveLength, NoFile) \<and>
   isValidationError NonPositiveLength"
  using nonpositive_length_rejected [where len = 0 and e = healthyEnv and src = steadySource
      and name = "''bank''" and account = "''me''"
      and nf = "Data (Json [\<lparr>pin_Name = ''bank'', pin_Account = ''me'', pin_PIN = ''1234''\<rparr>])"]
    nonpositive_length_rejected [where len = 0 and e = healthyEnv and src = steadySource
      and name = "''site''" and account = "''u''" and a = True and b = True and c = True
      and s = "[]" and pf = NoFile]
  by simp

subsection \<open>The password generator\<close>

lemma passwordLoop_exact:
  "\<forall>i < n. src (pos + i) \<noteq> None \<Longrightarrow>
   passwordLoop n charset src pos =
     Inr (map (\<lambda>i. charset ! (the (src (pos + i)) mod length charset)) [0..<n])"
proof (induction n arbitrary: pos)
  case 0
  then show ?case by simp
next
  case (Suc n)
  from Suc.prems have "src (pos + 0) \<noteq> None" by blast
  then obtain v where v: "src pos = Some v" by auto
  have "\<forall>i < n. src (pos + 1 + i) \<noteq> None"
    using Suc.prems by (metis Suc_less_eq add.assoc plus_1_eq_Suc)
  from Suc.IH [OF this]
  have "passwordLoop n charset src (pos + 1) =
      Inr (map (\<lambda>i. charset ! (the (src (pos + Suc i)) mod length charset)) [0..<n])"
    by simp
  with v show ?case
    by (simp add: rand_Int_def map_upt_Suc del: upt_Suc)
qed

lemma passwordLoop_error:
  "passwordLoop n charset src pos = Inl err \<Longrightarrow> err = RandomError"
  by (induction n arbitrary: pos) (auto split: sum.splits)

lemma generatePassword_never_empty:
  "generatePassword e len a b c s src \<noteq> Inl NoCharacters"
proof -
  have "effectiveCharset a b c s \<noteq> []"
    by (simp add: effectiveCharset_def Let_def lowerChars_def)
  then show ?thesis
    using passwordLoop_error [of "nat (sint len)" "effectiveCharset a b c s" src 0 NoCharacters]
    by (auto simp: generatePassword_def Let_def)
qed

lemma resolve_no_flags: "resolveFlags False False False [] = (True, True, True, defaultSpecial)"
  by (simp add: resolveFlags_def)

lemma config_all_classes:
  "configString True True True defaultSpecial
     = ''lowercase, uppercase, digits, special(!@#$%^&*()_+-=[]{}|;:,.<>?)''"
  by (simp add: configString_def defaultSpecial_def)

lemma charset_all_classes:
  "buildCharset True True True defaultSpecial = lowerChars @ upperChars @ digitChars @ defaultSpecial"
  "effectiveCharset True True True defaultSpecial = buildCharset True True True defaultSpecial"
  "buildCharset True True True defaultSpecial \<noteq> []"
  by (simp_all add: buildCharset_def effectiveCharset_def defaultSpecial_def lowerChars_def)

lemma charset_direct:
  "buildCharset False False False [] = []"
  "effectiveCharset False False False [] = lowerChars @ upperChars @ digitChars @ defaultSpecial"
  "configString False False False [] = ''all (default)''"
  by (simp_all add: buildCharset_def effectiveCharset_def configString_def)

lemma generate_drawn:
  assumes "0 < sint len" and "nat (sint len) \<le> max_alloc e"
    and "\<forall>i < nat (sint len). src i \<noteq> None"
  shows "generatePassword e len a b c s src =
           Inr (drawnPassword (effectiveCharset a b c s) src (nat (sint len)))"
proof -
  have ne: "effectiveCharset a b c s \<noteq> []"
    by (simp add: effectiveCharset_def Let_def lowerChars_def)
  from assms(3) have "\<forall>i < nat (sint len). src (0 + i) \<noteq> None" by simp
  from passwordLoop_exact [OF this, of "effectiveCharset a b c s"] assms(1,2) ne show ?thesis
    by (simp add: generatePassword_def Let_def drawnPassword_def)
qed

lemma drawnPassword_props:
  "charset \<noteq> [] \<Longrightarrow>
   length (drawnPassword charset src n) = n \<and> set (drawnPassword charset src n) \<subseteq> set charset"
  by (auto simp: drawnPassword_def)

lemma all_chars_ascii:
  "list_all (\<lambda>c. inRange c 0x00 0x7F) (lowerChars @ upperChars @ digitChars @ defaultSpecial)"
  by (simp add: lowerChars_def upperChars_def digitChars_def defaultSpecial_def inRange_def)

lemma drawn_ascii:
  "json_string (drawnPassword (lowerChars @ upperChars @ digitChars @ defaultSpecial) src n)
     = drawnPassword (lowerChars @ upperChars @ digitChars @ defaultSpecial) src n"
proof -
  have "lowerChars @ upperChars @ digitChars @ defaultSpecial \<noteq> []"
    by (simp add: lowerChars_def)
  from drawnPassword_props [OF this, of src n] all_chars_ascii
  have "list_all (\<lambda>c. inRange c 0x00 0x7F)
      (drawnPassword (lowerChars @ upperChars @ digitChars @ defaultSpecial) src n)"
    unfolding list_all_iff by blast
  then show ?thesis by (rule json_string_ascii)
qed

lemma config_ascii:
  "json_string ''lowercase, uppercase, digits, special(!@#$%^&*()_+-=[]{}|;:,.<>?)''
     = ''lowercase, uppercase, digits, special(!@#$%^&*()_+-=[]{}|;:,.<>?)''"
  by (simp add: json_string_ascii inRange_def)

text \<open>
  Claim C8. Without class flags and without a special string, \<open>handleAddPassword\<close> turns
  on all three classes and the default special set, which is not empty; the generator then
  builds the full alphabet and does not take its own fall-back, so the fall-back is applied
  once; the password is, position by position, the character of the full alphabet that the
  random source draws; the stored config names the four classes used; the empty-alphabet
  error does not occur. Called directly without flags, the generator takes its fall-back
  and draws from the same alphabet, and \<open>AddPassword\<close> stores \<open>"all (default)"\<close>.
\<close>
theorem default_fallback:
  "resolveFlags False False False [] = (True, True, True, defaultSpecial) \<and>
   defaultSpecial \<noteq> [] \<and>
   buildCharset True True True defaultSpecial
     = lowerChars @ upperChars @ digitChars @ defaultSpecial \<and>
   buildCharset True True True defaultSpecial \<noteq> [] \<and>
   effectiveCharset True True True defaultSpecial = buildCharset True True True defaultSpecial \<and>
   configString True True True defaultSpecial
     = ''lowercase, uppercase, digits, special(!@#$%^&*()_+-=[]{}|;:,.<>?)'' \<and>
   fst (handleAddPassword e src name account len False False False [] f) \<noteq> Inl NoCharacters \<and>
   (0 < sint len \<and> nat (sint len) \<le> max_alloc e \<and> (\<forall>i < nat (sint len). src i \<noteq> None) \<longrightarrow>
      generatePassword e len True True True defaultSpecial src =
        Inr (drawnPassword (lowerChars @ upperChars @ digitChars @ defaultSpecial) src
               (nat (sint len))) \<and>
      generatePassword e len False False False [] src =
        Inr (drawnPassword (lowerChars @ upperChars @ digitChars @ defaultSpecial) src
               (nat (sint len)))) \<and>
   (name \<noteq> [] \<and> account \<noteq> [] \<and> 0 < sint len \<and> nat (sint len) \<le> max_alloc e \<and>
    (\<forall>i < nat (sint len). src i \<noteq> None) \<and>
    loadPasswordStorage e f = Inr entries \<and> write_ok e \<longrightarrow>
      handleAddPassword e src name account len False False False [] f =
        (Inr (), Data (Json (map pwStrings (spec_upsert pwKey
           \<lparr>pw_Name = name, pw_Account = account,
            pw_Password = drawnPassword (lowerChars @ upperChars @ digitChars @ defaultSpecial)
                            src (nat (sint len)),
            pw_Length = len,
            pw_Config = ''lowercase, uppercase, digits, special(!@#$%^&*()_+-=[]{}|;:,.<>?)''\<rparr>
           entries)))) \<and>
      pwStrings
        \<lparr>pw_Name = name, pw_Account = account,
         pw_Password = drawnPassword (lowerChars @ upperChars @ digitChars @ defaultSpecial)
                         src (nat (sint len)),
         pw_Length = len,
         pw_Config = ''lowercase, uppercase, digits, special(!@#$%^&*()_+-=[]{}|;:,.<>?)''\<rparr>
      = \<lparr>pw_Name = json_string name, pw_Account = json_string account,
         pw_Password = drawnPassword (lowerChars @ upperChars @ digitChars @ defaultSpecial)
                         src (nat (sint len)),
         pw_Length = len,
         pw_Config = ''lowercase, uppercase, digits, special(!@#$%^&*()_+-=[]{}|;:,.<>?)''\<rparr>) \<and>
   buildCharset False False False [] = [] \<and>
   effectiveCharset False False False []
     = lowerChars @ upperChars @ digitChars @ defaultSpecial \<and>
   configString False False False [] = ''all (default)''"
proof -
  let ?all = "lowerChars @ upperChars @ digitChars @ defaultSpecial"
  let ?cfg = "''lowercase, uppercase, digits, special(!@#$%^&*()_+-=[]{}|;:,.<>?)''"
  have never: "fst (handleAddPassword e src name account len False False False [] f)
      \<noteq> Inl NoCharacters"
    using generatePassword_never_empty [of e len True True True defaultSpecial src]
    by (auto simp: handleAddPassword_def resolve_no_flags AddPassword_def Let_def
          loadPasswordStorage_def savePasswordStorage_def getPasswordConfigPath_def
          os_WriteFile_def split: sum.splits option.splits if_splits)
  have gen: "generatePassword e len True True True defaultSpecial src =
        Inr (drawnPassword ?all src (nat (sint len))) \<and>
      generatePassword e len False False False [] src =
        Inr (drawnPassword ?all src (nat (sint len)))"
    if h: "0 < sint len" "nat (sint len) \<le> max_alloc e" "\<forall>i < nat (sint len). src i \<noteq> None"
    using generate_drawn [OF h, of True True True defaultSpecial]
      generate_drawn [OF h, of False False False "[]"]
    by (simp add: charset_all_classes charset_direct)
  have strs: "pwStrings
        \<lparr>pw_Name = name, pw_Account = account,
         pw_Password = drawnPassword ?all src (nat (sint len)),
         pw_Length = len, pw_Config = ?cfg\<rparr>
      = \<lparr>pw_Name = json_string name, pw_Account = json_string account,
         pw_Password = drawnPassword ?all src (nat (sint len)),
         pw_Length = len, pw_Config = ?cfg\<rparr>"
    by (simp add: pwStrings_def drawn_ascii config_ascii)
  have run: "handleAddPassword e src name account len False False False [] f =
        (Inr (), Data (Json (map pwStrings (spec_upsert pwKey
           \<lparr>pw_Name = name, pw_Account = account,
            pw_Password = drawnPassword ?all src (nat (sint len)),
            pw_Length = len, pw_Config = ?cfg\<rparr> entries))))"
    if h: "name \<noteq> []" "account \<noteq> []" "0 < sint len" "nat (sint len) \<le> max_alloc e"
      "\<forall>i < nat (sint len). src i \<noteq> None" "loadPasswordStorage e f = Inr entries" "write_ok e"
  proof -
    have p: "generatePassword e len True True True defaultSpecial src =
        Inr (drawnPassword ?all src (nat (sint len)))"
      using gen [OF h(3,4,5)] by blast
    have "handleAddPassword e src name account len False False False [] f =
        AddPassword e src name account len True True True defaultSpecial f"
      using h(1,2) by (simp add: handleAddPassword_def resolve_no_flags)
    also have "\<dots> = (Inr (), Data (Json (map pwStrings (spec_upsert pwKey
              \<lparr>pw_Name = name, pw_Account = account,
               pw_Password = drawnPassword ?all src (nat (sint len)), pw_Length = len,
               pw_Config = configString True True True defaultSpecial\<rparr> entries))))"
      by (rule AddPassword_upsert [OF h(1,2) p h(6,7)])
    finally show ?thesis
      by (simp only: config_all_classes)
  qed
  have ds: "defaultSpecial \<noteq> []" by (simp add: defaultSpecial_def)
  show ?thesis
    using never gen run strs ds resolve_no_flags config_all_classes charset_all_classes
      charset_direct
    by blast
qed

lemma upt_ten: "[0..<10] = [0, 1, 2, 3, 4, 5, 6, 7, 8, 9]"
  by code_simp

lemma drawn_example:
  "drawnPassword (lowerChars @ upperChars @ digitChars @ defaultSpecial) steadySource 10
     = ''dkryFMT07%''"
  by (simp add: drawnPassword_def upt_ten steadySource_def lowerChars_def upperChars_def
        digitChars_def defaultSpecial_def)

theorem default_fallback_witness:
  "''site'' \<noteq> [] \<and> ''u'' \<noteq> [] \<and> 0 < sint (10 :: int64) \<and>
   nat (sint (10 :: int64)) \<le> max_alloc healthyEnv \<and>
   steadySource 0 \<noteq> None \<and> steadySource 9 \<noteq> None \<and>
   loadPasswordStorage healthyEnv NoFile = Inr [] \<and> write_ok healthyEnv \<and>
   generatePassword healthyEnv 10 True True True defaultSpecial steadySource
     = Inr ''dkryFMT07%'' \<and>
   handleAddPassword healthyEnv steadySource ''site'' ''u'' 10 False False False [] NoFile =
     (Inr (), Data (Json
        [\<lparr>pw_Name = ''site'', pw_Account = ''u'', pw_Password = ''dkryFMT07%'', pw_Length = 10,
          pw_Config = ''lowercase, uppercase, digits, special(!@#$%^&*()_+-=[]{}|;:,.<>?)''\<rparr>]))"
proof -
  have l: "loadPasswordStorage healthyEnv NoFile = Inr []"
    by (simp add: loadPasswordStorage_def getPasswordConfigPath_def healthyEnv_def os_IsNotExist_def)
  have w: "write_ok healthyEnv" by (simp add: healthyEnv_def)
  have m: "nat (sint (10 :: int64)) \<le> max_alloc healthyEnv" by (simp add: healthyEnv_def)
  have d: "\<forall>i < nat (sint (10 :: int64)). steadySource i \<noteq> None"
    by (simp add: steadySource_def)
  have n: "nat (sint (10 :: int64)) = 10" by simp
  have a: "json_string ''site'' = ''site''" "json_string ''u'' = ''u''"
    by (simp_all add: json_string_ascii inRange_def)
  from default_fallback [where e = healthyEnv and src = steadySource and name = "''site''"
        and account = "''u''" and len = 10 and f = NoFile and entries = "[]"] l w d m
  have "generatePassword healthyEnv 10 True True True defaultSpecial steadySource
     = Inr ''dkryFMT07%'' \<and>
   handleAddPassword healthyEnv steadySource ''site'' ''u'' 10 False False False [] NoFile =
     (Inr (), Data (Json
        [\<lparr>pw_Name = ''site'', pw_Account = ''u'', pw_Password = ''dkryFMT07%'', pw_Length = 10,
          pw_Config = ''lowercase, uppercase, digits, special(!@#$%^&*()_+-=[]{}|;:,.<>?)''\<rparr>]))"
    by (simp add: n drawn_example a)
  with l w m show ?thesis
    by (simp add: steadySource_def)
qed


section \<open>The test vector of RFC 6238\<close>


lemma normal32_numeral: "normal32 (numeral k) = word_of_nat (numeral k mod 4294967296)"
proof -
  have "(word_of_nat (n mod 4294967296) :: u32) = word_of_nat n" for n
    by (simp add: word_of_nat_eq_iff take_bit_eq_mod)
  from this [of "numeral k"] show ?thesis by (simp add: normal32_def)
qed

lemma normal32_0: "normal32 0 = 0" by (simp add: normal32_def)
lemma normal32_1: "normal32 1 = 1" by (simp add: normal32_def)
lemmas normal32_ev = normal32_numeral normal32_0 normal32_1

lemma rotl32_ev: "rotl32 n x = normal32 (push_bit n x OR drop_bit (32 - n) x)"
  by (simp add: normal32_def rotl32_def)

lemma round1_ev:
  "round1 i wi (a, b, c, d, e) =
     (normal32 (rotl32 5 a + sha1_f i b c d + e + sha1_k i + wi), a, rotl32 30 b, c, d)"
  by (simp add: normal32_def)

lemma add_state_ev:
  "add_state (h0, h1, h2, h3, h4) (a, b, c, d, e) =
     (normal32 (h0 + a), normal32 (h1 + b), normal32 (h2 + c), normal32 (h3 + d), normal32 (h4 + e))"
  by (simp add: normal32_def)

lemma extend_ev: "extend_schedule (numeral k) r = extend_schedule (pred_numeral k) (next_w r # r)"
  by (simp add: numeral_eq_Suc)

lemma replicate_ev: "replicate (numeral k) x = x # replicate (pred_numeral k) x"
  by (simp add: numeral_eq_Suc)

lemma block_ipad:
  "block sha1_init (map (\<lambda>b. b XOR 0x36) (testSecretBytes @ replicate 44 0))
   = (3418885260, 4120502956, 3183003698, 3667247555, 4167577637)"
  by (simp add: block_def sha1_init_def schedule_def next_w_def rotl32_ev normal32_ev extend_ev round1_ev
        add_state_ev sha1_f_def sha1_k_def testSecretBytes_def replicate_ev putUint64_def
        putUint32_def del: round1.simps add_state.simps)

lemma block_inner:
  "block (3418885260, 4120502956, 3183003698, 3667247555, 4167577637)
     (putUint64 1 @ 0x80 # replicate 47 0 @ putUint64 576)
   = (2923006674, 3845772892, 1570953884, 2321626177, 2537110156)"
  by (simp add: block_def sha1_init_def schedule_def next_w_def rotl32_ev normal32_ev extend_ev round1_ev
        add_state_ev sha1_f_def sha1_k_def testSecretBytes_def replicate_ev putUint64_def
        putUint32_def del: round1.simps add_state.simps)

lemma block_opad:
  "block sha1_init (map (\<lambda>b. b XOR 0x5c) (testSecretBytes @ replicate 44 0))
   = (2562571725, 1491106814, 2908544490, 985678603, 4262488101)"
  by (simp add: block_def sha1_init_def schedule_def next_w_def rotl32_ev normal32_ev extend_ev round1_ev
        add_state_ev sha1_f_def sha1_k_def testSecretBytes_def replicate_ev putUint64_def
        putUint32_def del: round1.simps add_state.simps)

lemma block_outer:
  "block (2562571725, 1491106814, 2908544490, 985678603, 4262488101)
     (digest (2923006674, 3845772892, 1570953884, 2321626177, 2537110156) @ 0x80 # replicate 35 0 @ putUint64 672)
   = (1973717529, 3570131200, 1682868929, 964618868, 2049782699)"
  by (simp add: block_def sha1_init_def schedule_def next_w_def rotl32_ev normal32_ev extend_ev round1_ev
        add_state_ev sha1_f_def sha1_k_def testSecretBytes_def replicate_ev putUint64_def
        putUint32_def del: round1.simps add_state.simps)

lemma digest_outer:
  "digest (1973717529, 3570131200, 1682868929, 964618868, 2049782699)
   = [117, 164, 138, 25, 212, 203, 225, 0, 100, 78, 138, 193, 57, 126, 234, 116, 122, 45, 51, 171]"
  by (simp add: putUint32_def)

lemma blocks_two:
  assumes "length p = 64" and "length q = 64"
  shows "blocks h (p @ q) = block (block h p) q"
proof -
  have "blocks h (p @ q) = blocks (block h p) q"
    using assms by (subst blocks.simps) simp
  also have "\<dots> = blocks (block (block h p) q) []"
    using assms by (subst blocks.simps) simp
  also have "\<dots> = block (block h p) q"
    by (subst blocks.simps) simp
  finally show ?thesis .
qed

lemma length_putUint64: "length (putUint64 v) = 8"
  by (simp add: putUint64_def)

lemma sha1_block_and_tail:
  assumes "length p = 64" and "length m = n" and "n < 56"
  shows "sha1 (p @ m) =
           digest (block (block sha1_init p)
                     (m @ 0x80 # replicate (55 - n) 0 @ putUint64 (of_nat (8 * (64 + n)))))"
proof -
  have "119 - n = 64 + (55 - n)" "55 - n < 64"
    using assms(3) by simp_all
  then have "(119 - n) mod 64 = 55 - n"
    by (metis mod_add_self1 mod_less)
  then have "(119 - length (p @ m) mod 64) mod 64 = 55 - n"
    using assms by simp
  then have "sha1_pad (p @ m) =
      p @ (m @ 0x80 # replicate (55 - n) 0 @ putUint64 (of_nat (8 * (64 + n))))"
    using assms by (simp add: sha1_pad_def)
  moreover have "length (m @ 0x80 # replicate (55 - n) 0 @ putUint64 (of_nat (8 * (64 + n)))) = 64"
    using assms by (simp add: length_putUint64)
  ultimately show ?thesis
    using assms(1) by (simp add: sha1_def blocks_two)
qed

lemma hmac_sha1_short:
  assumes "length key = 20" and "length msg = 8"
  shows "hmac_sha1 key msg =
     digest (block (block sha1_init (map (\<lambda>b. b XOR 0x5c) (key @ replicate 44 0)))
        (digest (block (block sha1_init (map (\<lambda>b. b XOR 0x36) (key @ replicate 44 0)))
                   (msg @ 0x80 # replicate 47 0 @ putUint64 576))
         @ 0x80 # replicate 35 0 @ putUint64 672))"
proof -
  have k: "length (map (\<lambda>b. b XOR c) (key @ replicate 44 0)) = 64" for c :: byte
    using assms(1) by simp
  have inner: "sha1 (map (\<lambda>b. b XOR 0x36) (key @ replicate 44 0) @ msg) =
      digest (block (block sha1_init (map (\<lambda>b. b XOR 0x36) (key @ replicate 44 0)))
                   (msg @ 0x80 # replicate 47 0 @ putUint64 576))"
    using sha1_block_and_tail [OF k assms(2), of "0x36"] by simp
  have "sha1 (map (\<lambda>b. b XOR 0x5c) (key @ replicate 44 0) @ d) =
      digest (block (block sha1_init (map (\<lambda>b. b XOR 0x5c) (key @ replicate 44 0)))
                   (d @ 0x80 # replicate 35 0 @ putUint64 672))"
    if "length d = 20" for d
    using sha1_block_and_tail [OF k that, of "0x5c"] by simp
  from this [OF length_digest] inner assms(1) show ?thesis
    by (simp add: hmac_sha1_def Let_def)
qed

lemma hmac_test_vector:
  "hmac_sha1 testSecretBytes (putUint64 1)
   = [117, 164, 138, 25, 212, 203, 225, 0, 100, 78, 138, 193, 57, 126, 234, 116, 122, 45, 51, 171]"
proof -
  have "length testSecretBytes = 20" by (simp add: testSecretBytes_def)
  from hmac_sha1_short [OF this length_putUint64, of 1] show ?thesis
    by (simp only: block_ipad block_inner block_opad block_outer digest_outer)
qed

lemma truncation_test_vector:
  "dynamicTruncation
     [117, 164, 138, 25, 212, 203, 225, 0, 100, 78, 138, 193, 57, 126, 234, 116, 122, 45, 51, 171]
   = Inr 1094287082"
  by (simp add: dynamicTruncation_def)

lemma format_test_vector: "sprintf_06d 287082 = ''287082''"
  by (simp add: sprintf_06d_def decimal.simps digitChar_def char_of_eq_iff)

lemma counter_test_vector: "timeCounter 59 30 = 1"
  by (simp add: timeCounter_def int64_quo_def)

text \<open>
  Claim C1. With the raw ASCII bytes of \<open>"12345678901234567890"\<close> as HMAC-SHA1 key, period
  30 and Unix time 59, the time counter is 1, the dynamically truncated 31-bit value is
  1094287082, whose last eight digits are 94287082, and the six-digit code is
  \<open>"287082"\<close>: for the computation on the key, for \<open>testTOTP\<close>, and for
  \<open>generateTOTPWithOffset\<close> on the Base32 form of the key.
\<close>

theorem rfc6238_test_vector:
  "timeCounter 59 30 = 1 \<and>
   truncatedHash testSecretBytes (timeCounter 59 30) = Inr 1094287082 \<and>
   unat (1094287082 :: u32) < 2 ^ 31 \<and>
   unat (1094287082 :: u32) mod 100000000 = 94287082 \<and>
   unat (1094287082 :: u32) mod 1000000 = 287082 \<and>
   computeOTP testSecretBytes (timeCounter 59 30) = Inr ''287082'' \<and>
   testTOTP = Inr ''287082'' \<and>
   generateTOTPWithOffset id
     [71, 69, 90, 68, 71, 78, 66, 86, 71, 89, 51, 84, 81, 79, 74, 81,
      71, 69, 90, 68, 71, 78, 66, 86, 71, 89, 51, 84, 81, 79, 74, 81] 30 0 59
     = Inr (''287082'', 1)"
proof -
  have t: "truncatedHash testSecretBytes 1 = Inr 1094287082"
    by (simp only: truncatedHash_def hmac_test_vector truncation_test_vector)
  have "unat ((1094287082 :: u32) mod 1000000) = 287082" by simp
  with t have c: "computeOTP testSecretBytes 1 = Inr ''287082''"
    by (simp add: computeOTP_def format_test_vector)
  have q: "int64_quo 59 30 = 1"
    using counter_test_vector by (simp add: timeCounter_def)
  have tt: "testTOTP = Inr ''287082''"
    by (simp add: testTOTP_def q c)
  have r: "remainingSeconds (59 + 0) 30 = 1"
    by (simp add: remainingSeconds_def int64_rem_def)
  have g: "generateTOTPWithOffset id
     [71, 69, 90, 68, 71, 78, 66, 86, 71, 89, 51, 84, 81, 79, 74, 81,
      71, 69, 90, 68, 71, 78, 66, 86, 71, 89, 51, 84, 81, 79, 74, 81] 30 0 59
     = Inr (''287082'', 1)"
    using r by (simp add: generateTOTPWithOffset_def decode_GEZD counter_test_vector c)
  show ?thesis
    using t c tt g by (simp add: counter_test_vector)
qed

end
